theory Spec2Isabelle
  imports Complex_Main
begin

section \<open>Rational kernel\<close>

text \<open>
  The programs compute with GMP rationals (\<open>mpq_class\<close>).  A rational is modelled by its
  value, a HOL \<open>rat\<close>: the rational tokens of a certificate are taken in canonical form
  (lowest terms, positive denominator), which the GMP functions the programs apply to
  them require of their operands and which their results have.  On canonical operands
  \<open>==\<close>, which compares numerators and denominators, is equality of values, and
  \<open>canonicalize\<close> is the identity.

  \<open>floor\<close> and \<open>ceil\<close> of viprchk.cpp divide the numerator by the denominator with
  \<open>mpz_fdiv_q\<close> (rounding towards minus infinity) and \<open>mpz_cdiv_q\<close> (rounding towards
  plus infinity).
\<close>

definition floor_mpq :: "rat \<Rightarrow> rat" where
  "floor_mpq q = (case quotient_of q of (n, d) \<Rightarrow> of_int (n div d))"

definition ceil_mpq :: "rat \<Rightarrow> rat" where
  "ceil_mpq q = (case quotient_of q of (n, d) \<Rightarrow> of_int (- ((- n) div d)))"

definition isInteger :: "rat \<Rightarrow> bool" where
  "isInteger q \<longleftrightarrow> q = floor_mpq q"

definition sgn_mpq :: "rat \<Rightarrow> int" where
  "sgn_mpq a = (if a < 0 then - 1 else if a = 0 then 0 else 1)"


section \<open>Sparse vectors\<close>

text \<open>
  \<open>SVectorGMP\<close> is a \<open>std::map<int, mpq_class>\<close>: a finite map whose entries are visited
  in increasing key order and may hold explicit zeros.  It is modelled by the list of its
  entries in key order.
\<close>

type_synonym SVectorGMP = "(int \<times> rat) list"

text \<open>\<open>find\<close>: the entry of a key, if there is one.\<close>

definition find_entry :: "SVectorGMP \<Rightarrow> int \<Rightarrow> rat option" where
  "find_entry v i = map_of v i"

text \<open>\<open>v[i] = a\<close>: overwrite the entry of key \<open>i\<close>, or insert it at its place.\<close>

fun set_entry :: "int \<Rightarrow> rat \<Rightarrow> SVectorGMP \<Rightarrow> SVectorGMP" where
  "set_entry i a [] = [(i, a)]"
| "set_entry i a ((j, b) # v) =
     (if i < j then (i, a) # (j, b) # v
      else if i = j then (i, a) # v
      else (j, b) # set_entry i a v)"

text \<open>\<open>v[i] += a\<close>: \<open>operator[]\<close> inserts a zero entry when the key is absent.\<close>

definition add_entry :: "int \<Rightarrow> rat \<Rightarrow> SVectorGMP \<Rightarrow> SVectorGMP" where
  "add_entry i a v = set_entry i ((case find_entry v i of None \<Rightarrow> 0 | Some b \<Rightarrow> b) + a) v"

definition compactify :: "SVectorGMP \<Rightarrow> SVectorGMP" where
  "compactify v = filter (\<lambda>(i, a). a \<noteq> 0) v"

text \<open>
  \<open>SVectorGMP::operator!=\<close>.  When the sizes differ both operands are compactified (in
  place) before the sizes are compared again; then every entry of the left operand is
  looked up in the right one.  The function below returns the verdict; the in-place
  compactification leaves every vector without zero entries as it is
  (lemma \<open>compactify_compact\<close> below), and every vector that reaches a comparison has been
  compactified when it was read or when its constraint was constructed.
\<close>

definition svec_ne :: "SVectorGMP \<Rightarrow> SVectorGMP \<Rightarrow> bool" where
  "svec_ne cf1 cf2 =
     (let c1 = (if length cf1 \<noteq> length cf2 then compactify cf1 else cf1);
          c2 = (if length cf1 \<noteq> length cf2 then compactify cf2 else cf2)
      in if length c1 \<noteq> length c2 then True
         else list_ex (\<lambda>(i, a). case find_entry c2 i of
                                   None \<Rightarrow> a \<noteq> 0
                                 | Some b \<Rightarrow> b \<noteq> a) c1)"

definition svec_eq :: "SVectorGMP \<Rightarrow> SVectorGMP \<Rightarrow> bool" where
  "svec_eq cf1 cf2 \<longleftrightarrow> \<not> svec_ne cf1 cf2"

text \<open>\<open>scalarProduct(u, v)\<close>: the sum over the entries of \<open>u\<close> whose key \<open>v\<close> has too.\<close>

fun scalarProduct :: "SVectorGMP \<Rightarrow> SVectorGMP \<Rightarrow> rat" where
  "scalarProduct [] v = 0"
| "scalarProduct ((i, a) # u) v =
     (case find_entry v i of None \<Rightarrow> 0 | Some b \<Rightarrow> a * b) + scalarProduct u v"


section \<open>Constraints of the verifier\<close>

text \<open>
  Outcomes of the verifier's functions: \<open>Rejected\<close> is a reported error (the function
  returns \<open>false\<close> and the run fails); \<open>Undefined\<close> is an access the C++ program makes
  without a check and that has no defined behaviour or ends the run abnormally (an index
  outside a vector, a null coefficient pointer, an uncaught exception, a failed
  assertion).
\<close>

datatype error = Rejected | Undefined

text \<open>
  The coefficient field of a constraint is a shared pointer.  It is the pointer to the one
  objective vector (the field was read from the token \<open>OBJ\<close>), a vector of the
  constraint's own, or null (after \<open>trash\<close>).  A pointer to the objective is resolved in
  the current objective vector.
\<close>

datatype coefptr = ObjPtr | Own SVectorGMP | Nullptr

fun deref :: "SVectorGMP \<Rightarrow> coefptr \<Rightarrow> SVectorGMP option" where
  "deref obj ObjPtr = Some obj"
| "deref obj (Own v) = Some v"
| "deref obj Nullptr = None"

record Constraint =
  label :: string
  sense :: int
  rhs :: rat
  coefficients :: coefptr
  refIdx :: int
  isAssumption :: bool
  assumptionList :: "int set"
  falsehood :: bool
  coefsEqualObj :: bool
  trashed :: bool

text \<open>\<open>Constraint::_isFalsehood\<close>, on the vector the coefficient pointer points to.\<close>

definition isFalsehood_of :: "SVectorGMP \<Rightarrow> int \<Rightarrow> rat \<Rightarrow> bool" where
  "isFalsehood_of v s r \<longleftrightarrow> v = [] \<and> ((s \<le> 0 \<and> r < 0) \<or> (s \<ge> 0 \<and> r > 0))"

text \<open>
  The constructor compactifies the coefficient vector, computes \<open>_falsehood\<close> and clears
  the marks.  The objective vector was compactified when it was read, so only a vector of
  the constraint's own can change here.
\<close>

definition compactify_ptr :: "coefptr \<Rightarrow> coefptr" where
  "compactify_ptr p = (case p of Own v \<Rightarrow> Own (compactify v) | _ \<Rightarrow> p)"

definition new_Constraint ::
  "SVectorGMP \<Rightarrow> string \<Rightarrow> int \<Rightarrow> rat \<Rightarrow> coefptr \<Rightarrow> bool \<Rightarrow> int set \<Rightarrow> Constraint" where
  "new_Constraint obj lbl s r p isAsm asms =
     \<lparr> label = lbl, sense = s, rhs = r, coefficients = compactify_ptr p, refIdx = - 1,
       isAssumption = isAsm, assumptionList = asms,
       falsehood = (case deref obj (compactify_ptr p) of
                      None \<Rightarrow> False | Some v \<Rightarrow> isFalsehood_of v s r),
       coefsEqualObj = False, trashed = False \<rparr>"

definition trash :: "Constraint \<Rightarrow> Constraint" where
  "trash c = c \<lparr> trashed := True, falsehood := False, coefficients := Nullptr, rhs := 0,
                 assumptionList := {} \<rparr>"

text \<open>\<open>isInt[j]\<close> on the \<open>vector<bool>\<close> of integrality flags.\<close>

definition isInt_at :: "bool list \<Rightarrow> int \<Rightarrow> bool option" where
  "isInt_at flags j = (if 0 \<le> j \<and> nat j < length flags then Some (flags ! nat j) else None)"

text \<open>
  \<open>Constraint::round\<close>.  The loop over the coefficient entries stops with an error at the
  first entry of an integer variable whose coefficient is not an integer; entries of the
  other variables are passed over.
\<close>

fun round_check :: "bool list \<Rightarrow> SVectorGMP \<Rightarrow> error + unit" where
  "round_check flags [] = Inr ()"
| "round_check flags ((j, a) # v) =
     (case isInt_at flags j of
        None \<Rightarrow> Inl Undefined
      | Some True \<Rightarrow> (if \<not> isInteger a then Inl Rejected else round_check flags v)
      | Some False \<Rightarrow> round_check flags v)"

definition round_con :: "bool list \<Rightarrow> SVectorGMP \<Rightarrow> Constraint \<Rightarrow> error + Constraint" where
  "round_con flags obj c =
     (case deref obj (coefficients c) of
        None \<Rightarrow> Inl Undefined
      | Some v \<Rightarrow>
          (case round_check flags v of
             Inl e \<Rightarrow> Inl e
           | Inr _ \<Rightarrow>
               Inr (if sense c < 0 then c \<lparr> rhs := floor_mpq (rhs c) \<rparr>
                    else if sense c > 0 then c \<lparr> rhs := ceil_mpq (rhs c) \<rparr>
                    else c)))"

text \<open>\<open>Constraint::dominates\<close>.\<close>

definition dominates :: "SVectorGMP \<Rightarrow> Constraint \<Rightarrow> Constraint \<Rightarrow> error + bool" where
  "dominates obj this other =
     (if falsehood this then Inr True
      else case (deref obj (coefficients this), deref obj (coefficients other)) of
             (Some v, Some w) \<Rightarrow>
               Inr (svec_eq v w \<and>
                    ((sense other > 0 \<and> sense this \<ge> 0 \<and> rhs this \<ge> rhs other)
                     \<or> (sense other < 0 \<and> sense this \<le> 0 \<and> rhs this \<le> rhs other)
                     \<or> (sense other = 0 \<and> sense this = 0 \<and> rhs this = rhs other)))
           | _ \<Rightarrow> Inl Undefined)"

definition isTautology :: "SVectorGMP \<Rightarrow> Constraint \<Rightarrow> bool" where
  "isTautology obj c \<longleftrightarrow>
     (case deref obj (coefficients c) of
        None \<Rightarrow> False
      | Some v \<Rightarrow> v = [] \<and> ((sense c = 0 \<and> 0 = rhs c) \<or> (sense c < 0 \<and> rhs c \<ge> 0)
                            \<or> (sense c > 0 \<and> rhs c \<le> 0)))"



section \<open>State and input of the verifier\<close>

text \<open>
  The global variables of viprchk.cpp.  \<open>ndebug\<close> tells whether the program was built
  with \<open>NDEBUG\<close>: the blocks under \<open>#ifndef NDEBUG\<close> and the assertions exist only in
  a build without it.
\<close>

datatype RelationToProveType = INFEAS | RANGE

record vstate =
  ndebug :: bool
  numberOfVariables :: int
  numberOfConstraints :: int
  numberOfSolutions :: int
  isInt :: "bool list"
  constraint :: "Constraint list"
  relationToProveType :: RelationToProveType
  bestObjectiveValue :: rat
  lowerBound :: rat
  upperBound :: rat
  isMin :: bool
  checkLower :: bool
  checkUpper :: bool
  relationToProve :: Constraint
  objectiveCoefficients :: SVectorGMP
  objectiveIntegral :: bool


datatype coefspec = TokOBJ | Entries "(int \<times> rat) list"

datatype reason =
    ASM
  | LIN "(int \<times> rat) list"
  | RND "(int \<times> rat) list"
  | UNS int int int int
  | SOL
  | UNKNOWN string

record con_line =
  cl_label :: string
  cl_sense :: char
  cl_rhs :: rat
  cl_coef :: coefspec

record der_line = con_line +
  dl_open :: string
  dl_reason :: reason
  dl_closing :: string
  dl_refIdx :: int

datatype bound_token = MinusInf | PlusInf | Number rat

datatype rtp_spec = RtpInfeas | RtpRange bound_token bound_token | RtpOther string

record certificate =
  c_variables :: "string list"
  c_integers :: "int list"
  c_objsense :: string
  c_obj :: coefspec
  c_constraints :: "con_line list"
  c_rtp :: rtp_spec
  c_solutions :: "(string \<times> coefspec) list"
  c_derivations :: "der_line list"


section \<open>Reading vectors and constraints\<close>

text \<open>
  \<open>readConstraintCoefficients(coefficients, coefEqualsObj)\<close>.  The vector the pointer
  points to is cleared first.  On the token \<open>OBJ\<close> the caller's pointer is set to the
  objective; otherwise the pairs are stored in the cleared vector, every index checked
  against the number of variables.  The vector is compactified at the end.  The result is
  the caller's pointer, the objective vector (which changes when the pointer passed in
  already points to it) and the flag \<open>coefEqualsObj\<close>.
\<close>

fun fill_entries :: "int \<Rightarrow> (int \<times> rat) list \<Rightarrow> SVectorGMP \<Rightarrow> error + SVectorGMP" where
  "fill_entries n [] v = Inr v"
| "fill_entries n ((index, a) # es) v =
     (if index < 0 \<or> index \<ge> n then Inl Rejected
      else fill_entries n es (set_entry index a v))"

definition readConstraintCoefficients ::
  "int \<Rightarrow> SVectorGMP \<Rightarrow> coefptr \<Rightarrow> coefspec \<Rightarrow> error + (coefptr \<times> SVectorGMP \<times> bool)" where
  "readConstraintCoefficients n obj p spec =
     (if p = Nullptr then Inl Undefined
      else
        let obj1 = (if p = ObjPtr then [] else obj)
        in case spec of
             TokOBJ \<Rightarrow> Inr (ObjPtr, compactify obj1, True)
           | Entries es \<Rightarrow>
               (case fill_entries n es [] of
                  Inl e \<Rightarrow> Inl e
                | Inr v \<Rightarrow>
                    if p = ObjPtr then Inr (ObjPtr, compactify v, False)
                    else Inr (Own (compactify v), obj1, False)))"

text \<open>\<open>readConstraint\<close>: the sense character, then the coefficients.\<close>

definition sense_of_char :: "char \<Rightarrow> error + int" where
  "sense_of_char c =
     (if c = CHR ''E'' then Inr 0
      else if c = CHR ''L'' then Inr (- 1)
      else if c = CHR ''G'' then Inr 1
      else Inl Rejected)"

definition readConstraint ::
  "int \<Rightarrow> SVectorGMP \<Rightarrow> coefptr \<Rightarrow> char \<Rightarrow> coefspec
     \<Rightarrow> error + (int \<times> coefptr \<times> SVectorGMP \<times> bool)" where
  "readConstraint n obj p senseChar spec =
     (case sense_of_char senseChar of
        Inl e \<Rightarrow> Inl e
      | Inr s \<Rightarrow>
          (case readConstraintCoefficients n obj p spec of
             Inl e \<Rightarrow> Inl e
           | Inr (p', obj', eqObj) \<Rightarrow> Inr (s, p', obj', eqObj)))"


section \<open>Linear combinations\<close>

text \<open>\<open>constraint[index]\<close> on the vector of all constraints.\<close>

definition con_at :: "Constraint list \<Rightarrow> int \<Rightarrow> Constraint option" where
  "con_at cons i = (if 0 \<le> i \<and> nat i < length cons then Some (cons ! nat i) else None)"

text \<open>
  \<open>Constraint::print\<close>, as far as it can go wrong; what it writes is not modelled.  It
  walks the vector behind the coefficient pointer and, for every entry that is not zero,
  looks up the name of the variable in the vector \<open>variable\<close>, which has
  \<open>numberOfVariables\<close> entries.  Without \<open>NDEBUG\<close> a sense other than \<open>-1\<close>, \<open>0\<close> and
  \<open>1\<close> fails an assertion, and for a constraint that is not an assumption the label of
  \<open>constraint[index]\<close> is looked up for every index of its assumption list.
\<close>

definition print_con ::
  "bool \<Rightarrow> int \<Rightarrow> SVectorGMP \<Rightarrow> Constraint list \<Rightarrow> Constraint \<Rightarrow> error + unit" where
  "print_con nd nvar obj cons c =
     (case deref obj (coefficients c) of
        None \<Rightarrow> Inl Undefined
      | Some v \<Rightarrow>
          if list_ex (\<lambda>(index, a). a \<noteq> 0 \<and> (index < 0 \<or> index \<ge> nvar)) v
          then Inl Undefined
          else if \<not> nd \<and> sense c \<noteq> - 1 \<and> sense c \<noteq> 1 \<and> sense c \<noteq> 0 then Inl Undefined
          else if \<not> nd \<and> \<not> isAssumption c
                  \<and> \<not> assumptionList c \<subseteq> {0 ..< int (length cons)}
          then Inl Undefined
          else Inr ())"

text \<open>
  \<open>readMultipliers(sense, mult)\<close>, on the pairs that follow the count.  A negative index
  is an error.  A zero multiplier is skipped.  The check of the index against the size of
  the constraint vector exists only without \<open>NDEBUG\<close>, and so does the output that
  follows it, which prints the cited constraint; the constraint is read next.  The
  first nonzero product of the sign of the multiplier and the sense of its constraint
  fixes the sense; a later nonzero product that differs is an error.
\<close>

fun readMultipliers_loop ::
  "bool \<Rightarrow> int \<Rightarrow> SVectorGMP \<Rightarrow> Constraint list \<Rightarrow> (int \<times> rat) list \<Rightarrow> int \<Rightarrow> SVectorGMP
     \<Rightarrow> error + (int \<times> SVectorGMP)" where
  "readMultipliers_loop nd nvar obj cons [] s mult = Inr (s, mult)"
| "readMultipliers_loop nd nvar obj cons ((index, a) # ts) s mult =
     (if index < 0 then Inl Rejected
      else if a = 0 then readMultipliers_loop nd nvar obj cons ts s mult
      else if \<not> nd \<and> (index < 0 \<or> index \<ge> int (length cons)) then Inl Rejected
      else case con_at cons index of
             None \<Rightarrow> Inl Undefined
           | Some c \<Rightarrow>
               (case (if nd then Inr () else print_con nd nvar obj cons c) of
                  Inl e \<Rightarrow> Inl e
                | Inr _ \<Rightarrow>
                    if s = 0
                    then readMultipliers_loop nd nvar obj cons ts (sense c * sgn_mpq a)
                           (set_entry index a mult)
                    else if sense c * sgn_mpq a \<noteq> 0 \<and> s \<noteq> sense c * sgn_mpq a
                         then Inl Rejected
                         else readMultipliers_loop nd nvar obj cons ts s
                                (set_entry index a mult)))"

definition readMultipliers :: "vstate \<Rightarrow> (int \<times> rat) list \<Rightarrow> error + (int \<times> SVectorGMP)" where
  "readMultipliers st ts =
     readMultipliers_loop (ndebug st) (numberOfVariables st) (objectiveCoefficients st)
       (constraint st) ts 0 []"

text \<open>
  \<open>readLinComb\<close>.  The loop over the multipliers, in index order, collects the assumptions
  of every cited constraint, adds the multiple of its coefficients and of its right-hand
  side, and trashes the constraint when its last reference is not after the current
  index.  A trashed constraint makes the result \<open>false\<close>; the loop goes on.  The
  accumulator is the constraint vector, the right-hand side, the coefficients, the
  assumptions and the return value.
\<close>

fun add_multiple :: "rat \<Rightarrow> SVectorGMP \<Rightarrow> SVectorGMP \<Rightarrow> SVectorGMP" where
  "add_multiple a [] coef = coef"
| "add_multiple a ((i, b) # c) coef = add_multiple a c (add_entry i (a * b) coef)"

fun readLinComb_loop ::
  "SVectorGMP \<Rightarrow> int \<Rightarrow> SVectorGMP
     \<Rightarrow> Constraint list \<times> rat \<times> SVectorGMP \<times> int set \<times> bool
     \<Rightarrow> error + (Constraint list \<times> rat \<times> SVectorGMP \<times> int set \<times> bool)" where
  "readLinComb_loop obj cur [] acc = Inr acc"
| "readLinComb_loop obj cur ((index, a) # mult) (cons, r, coef, asms, ok) =
     (case con_at cons index of
        None \<Rightarrow> Inl Undefined
      | Some con \<Rightarrow>
          if trashed con
          then readLinComb_loop obj cur mult (cons, r, coef, asms \<union> assumptionList con, False)
          else (case deref obj (coefficients con) of
                  None \<Rightarrow> Inl Undefined
                | Some c \<Rightarrow>
                    readLinComb_loop obj cur mult
                      (if refIdx con \<le> cur \<and> refIdx con \<ge> 0
                       then list_update cons (nat index) (trash con) else cons,
                       r + a * rhs con, add_multiple a c coef,
                       asms \<union> assumptionList con, ok)))"

definition readLinComb ::
  "vstate \<Rightarrow> (int \<times> rat) list \<Rightarrow> int
     \<Rightarrow> error + (int \<times> rat \<times> SVectorGMP \<times> int set \<times> Constraint list)" where
  "readLinComb st ts cur =
     (case readMultipliers st ts of
        Inl e \<Rightarrow> Inl e
      | Inr (s, mult) \<Rightarrow>
          (case readLinComb_loop (objectiveCoefficients st) cur mult
                  (constraint st, 0, [], {}, True) of
             Inl e \<Rightarrow> Inl e
           | Inr (cons, r, coef, asms, ok) \<Rightarrow>
               if ok then Inr (s, r, coef, asms, cons) else Inl Rejected))"



section \<open>Derivation steps\<close>

text \<open>
  \<open>canUnsplit(toDer, con1, a1, con2, a2, assumptionList)\<close>.  The four constraints are
  bound by index at the top of the function.  Two coefficient pointers are equal when
  they are the same constraint's or both point to the objective.
\<close>

fun unsplit_check :: "bool list \<Rightarrow> SVectorGMP \<Rightarrow> error + unit" where
  "unsplit_check flags [] = Inr ()"
| "unsplit_check flags ((j, a) # v) =
     (case isInt_at flags j of
        None \<Rightarrow> Inl Undefined
      | Some b \<Rightarrow>
          if \<not> b then Inl Rejected
          else if \<not> isInteger a then Inl Rejected
          else unsplit_check flags v)"

definition canUnsplit ::
  "vstate \<Rightarrow> Constraint \<Rightarrow> int \<Rightarrow> int \<Rightarrow> int \<Rightarrow> int \<Rightarrow> error + int set" where
  "canUnsplit st toDer con1 a1 con2 a2 =
     (case (con_at (constraint st) con1, con_at (constraint st) con2,
            con_at (constraint st) a1, con_at (constraint st) a2) of
        (Some c1, Some c2, Some branchAsm1, Some branchAsm2) \<Rightarrow>
          if trashed c1 then Inl Rejected
          else if trashed c2 then Inl Rejected
          else
            (case dominates (objectiveCoefficients st) c1 toDer of
               Inl e \<Rightarrow> Inl e
             | Inr d1 \<Rightarrow>
                 if \<not> d1 then Inl Rejected
                 else
                   (case dominates (objectiveCoefficients st) c2 toDer of
                      Inl e \<Rightarrow> Inl e
                    | Inr d2 \<Rightarrow>
                        if \<not> d2 then Inl Rejected
                        else if trashed branchAsm1 then Inl Rejected
                        else if - 1 \<noteq> sense branchAsm1 * sense branchAsm2 then Inl Rejected
                        else if \<not> (if sense branchAsm1 < 0
                                    then rhs branchAsm1 + 1 = rhs branchAsm2
                                    else rhs branchAsm1 = rhs branchAsm2 + 1)
                             then Inl Rejected
                        else
                          (case (deref (objectiveCoefficients st) (coefficients branchAsm1),
                                 deref (objectiveCoefficients st) (coefficients branchAsm2)) of
                             (Some v1, Some v2) \<Rightarrow>
                               if a1 = a2
                                  \<or> (coefficients branchAsm1 = ObjPtr
                                      \<and> coefficients branchAsm2 = ObjPtr)
                                  \<or> svec_eq v1 v2
                               then (case unsplit_check (isInt st) v1 of
                                       Inl e \<Rightarrow> Inl e
                                     | Inr _ \<Rightarrow>
                                         Inr ((assumptionList c1 - {a1})
                                              \<union> (assumptionList c2 - {a2})))
                               else Inl Rejected
                           | _ \<Rightarrow> Inl Undefined)))
      | _ \<Rightarrow> Inl Undefined)"

text \<open>
  The cases \<open>LIN\<close> and \<open>RND\<close> of \<open>processDER\<close>: the linear combination is read, the
  closing bracket is checked, the combination is rounded for \<open>RND\<close> and must dominate the
  constraint to derive.  When \<open>dominates\<close> fails both constraints are canonicalised and
  compared once more, which gives the same verdict on values; when it fails again the
  constraint to derive, the derived one and their difference are printed before the
  function returns \<open>false\<close>.  The result is the assumption list and the constraint vector
  after trashing.
\<close>

definition domination_report ::
  "vstate \<Rightarrow> Constraint list \<Rightarrow> Constraint \<Rightarrow> Constraint \<Rightarrow> error" where
  "domination_report st cons toDer derived =
     (case print_con (ndebug st) (numberOfVariables st) (objectiveCoefficients st) cons toDer of
        Inl e \<Rightarrow> e
      | Inr _ \<Rightarrow>
          (case print_con (ndebug st) (numberOfVariables st) (objectiveCoefficients st) cons
                  derived of
             Inl e \<Rightarrow> e
           | Inr _ \<Rightarrow>
               (case (deref (objectiveCoefficients st) (coefficients derived),
                      deref (objectiveCoefficients st) (coefficients toDer)) of
                  (Some v, Some w) \<Rightarrow>
                    (case print_con (ndebug st) (numberOfVariables st)
                            (objectiveCoefficients st) cons
                            (derived \<lparr> coefficients := Own (add_multiple (- 1) w v),
                                       rhs := rhs derived - rhs toDer \<rparr>) of
                       Inl e \<Rightarrow> e
                     | Inr _ \<Rightarrow> Rejected)
                | _ \<Rightarrow> Undefined)))"

definition derive_lin ::
  "vstate \<Rightarrow> Constraint \<Rightarrow> bool \<Rightarrow> (int \<times> rat) list \<Rightarrow> string
     \<Rightarrow> error + (int set \<times> Constraint list)" where
  "derive_lin st toDer rnd ts closing =
     (case readLinComb st ts (int (length (constraint st))) of
        Inl e \<Rightarrow> Inl e
      | Inr (senseDer, rhsDer, coefDer, asms, cons) \<Rightarrow>
          if closing \<noteq> ''}'' then Inl Rejected
          else
            (case (if rnd
                   then round_con (isInt st) (objectiveCoefficients st)
                          (new_Constraint (objectiveCoefficients st) [] senseDer rhsDer
                             (Own coefDer) (isAssumption toDer) (assumptionList toDer))
                   else Inr (new_Constraint (objectiveCoefficients st) [] senseDer rhsDer
                               (Own coefDer) (isAssumption toDer) (assumptionList toDer))) of
               Inl e \<Rightarrow> Inl e
             | Inr derived \<Rightarrow>
                 (case dominates (objectiveCoefficients st) derived toDer of
                    Inl e \<Rightarrow> Inl e
                  | Inr b \<Rightarrow>
                      if \<not> b
                      then Inl (domination_report st cons toDer derived)
                      else Inr (asms, cons))))"

text \<open>
  One pass of the loop of \<open>processDER\<close> up to \<open>constraint.push_back(toDer)\<close>: the
  constraint to derive is read and checked against its reason.  The result is the
  constraint that is appended, with its assumption list and closing index set, and the
  state.
\<close>

definition derive_reason ::
  "vstate \<Rightarrow> Constraint \<Rightarrow> der_line \<Rightarrow> error + (int set \<times> Constraint list)" where
  "derive_reason st toDer d =
     (case dl_reason d of
        ASM \<Rightarrow>
          if dl_closing d \<noteq> ''}'' then Inl Rejected
          else Inr ({int (length (constraint st))}, constraint st)
      | LIN ts \<Rightarrow> derive_lin st toDer False ts (dl_closing d)
      | RND ts \<Rightarrow> derive_lin st toDer True ts (dl_closing d)
      | UNS con1 asm1 con2 asm2 \<Rightarrow>
          if con1 < 0 \<or> con1 \<ge> int (length (constraint st)) then Inl Rejected
          else if con2 < 0 \<or> con2 \<ge> int (length (constraint st)) then Inl Rejected
          else
            (case canUnsplit st toDer con1 asm1 con2 asm2 of
               Inl e \<Rightarrow> Inl e
             | Inr asms \<Rightarrow>
                 if dl_closing d \<noteq> ''}'' then Inl Rejected
                 else Inr (asms, constraint st))
      | SOL \<Rightarrow>
          if coefficients toDer \<noteq> ObjPtr then Inl Rejected
          else if sense toDer \<noteq> - 1 then Inl Rejected
          else if rhs toDer
                  < bestObjectiveValue st - (if objectiveIntegral st then 1 else 0)
               then Inl Rejected
          else if dl_closing d \<noteq> ''}'' then Inl Rejected
          else Inr ({}, constraint st)
      | UNKNOWN kind \<Rightarrow> Inl Rejected)"

definition derive :: "vstate \<Rightarrow> der_line \<Rightarrow> error + (Constraint \<times> vstate)" where
  "derive st d =
     (case readConstraint (numberOfVariables st) (objectiveCoefficients st) (Own [])
             (cl_sense d) (cl_coef d) of
        Inl e \<Rightarrow> Inl e
      | Inr (s, coef, obj, coefEqualsObj) \<Rightarrow>
          if dl_open d \<noteq> ''{'' then Inl Rejected
          else
            (case derive_reason (st \<lparr> objectiveCoefficients := obj \<rparr>)
                    ((new_Constraint obj (cl_label d) s (cl_rhs d) coef (dl_reason d = ASM) {})
                       \<lparr> coefsEqualObj := coefEqualsObj \<rparr>) d of
               Inl e \<Rightarrow> Inl e
             | Inr (asms, cons) \<Rightarrow>
                 Inr ((new_Constraint obj (cl_label d) s (cl_rhs d) coef (dl_reason d = ASM) {})
                        \<lparr> coefsEqualObj := coefEqualsObj, assumptionList := asms,
                          refIdx := dl_refIdx d \<rparr>,
                      st \<lparr> objectiveCoefficients := obj, constraint := cons \<rparr>)))"

text \<open>
  The rest of the pass: the constraint is appended, the two triggers of global success
  are tried when its assumption list is empty, and the appended constraint is trashed
  when it is not the last one and its closing index is an index of the vector.
  \<open>Inr ()\<close> is the result \<open>true\<close>.  After the last pass the function reports what is
  missing and returns \<open>false\<close>: it lists the assumptions of the last constraint of the
  vector by their labels or, when there are none, prints that constraint and the relation
  to prove.
\<close>

definition failure_report :: "vstate \<Rightarrow> error + unit" where
  "failure_report st =
     (if constraint st = [] then Inl Undefined
      else if assumptionList (last (constraint st)) \<noteq> {}
      then (if assumptionList (last (constraint st)) \<subseteq> {0 ..< int (length (constraint st))}
            then Inl Rejected else Inl Undefined)
      else
        (case print_con (ndebug st) (numberOfVariables st) (objectiveCoefficients st)
                (constraint st) (last (constraint st)) of
           Inl e \<Rightarrow> Inl e
         | Inr _ \<Rightarrow>
             (case print_con (ndebug st) (numberOfVariables st) (objectiveCoefficients st)
                     (constraint st) (relationToProve st) of
                Inl e \<Rightarrow> Inl e
              | Inr _ \<Rightarrow> Inl Rejected)))"

definition proves_rtp :: "vstate \<Rightarrow> Constraint \<Rightarrow> error + bool" where
  "proves_rtp st c =
     (if assumptionList c = {} then
        if relationToProveType st = INFEAS \<and> falsehood c then Inr True
        else if relationToProveType st = RANGE \<and> coefsEqualObj c
             then dominates (objectiveCoefficients st) c (relationToProve st)
             else Inr False
      else Inr False)"

fun processDER_loop :: "vstate \<Rightarrow> der_line list \<Rightarrow> error + unit" where
  "processDER_loop st [] = failure_report st"
| "processDER_loop st (d # ds) =
     (case derive st d of
        Inl e \<Rightarrow> Inl e
      | Inr (toDer, st1) \<Rightarrow>
          (case proves_rtp st1 toDer of
             Inl e \<Rightarrow> Inl e
           | Inr True \<Rightarrow> Inr ()
           | Inr False \<Rightarrow>
               processDER_loop
                 (st1 \<lparr> constraint :=
                     constraint st1 @
                       [if ds \<noteq> [] \<and> refIdx toDer \<ge> 0
                           \<and> refIdx toDer < int (length (constraint st1)) + 1
                        then trash toDer else toDer] \<rparr>) ds))"

definition processDER :: "vstate \<Rightarrow> der_line list \<Rightarrow> error + unit" where
  "processDER st ds =
     (if relationToProveType st = RANGE
         \<and> ((isMin st \<and> \<not> checkLower st) \<or> (\<not> isMin st \<and> \<not> checkUpper st))
      then Inr ()
      else if \<not> ndebug st
              \<and> (coefficients (relationToProve st) = Nullptr
                  \<or> isTautology (objectiveCoefficients st) (relationToProve st))
      then Inl Undefined
      else processDER_loop st ds)"


section \<open>The sections before DER\<close>

text \<open>\<open>processVAR\<close> and \<open>processINT\<close>: the number of variables and the integrality flags.\<close>

definition processVAR :: "vstate \<Rightarrow> string list \<Rightarrow> error + vstate" where
  "processVAR st names = Inr (st \<lparr> numberOfVariables := int (length names) \<rparr>)"

fun mark_integers :: "int list \<Rightarrow> bool list \<Rightarrow> error + bool list" where
  "mark_integers [] flags = Inr flags"
| "mark_integers (index # is) flags =
     (if 0 \<le> index \<and> nat index < length flags
      then mark_integers is (list_update flags (nat index) True)
      else Inl Undefined)"

definition processINT :: "vstate \<Rightarrow> int list \<Rightarrow> error + vstate" where
  "processINT st idxs =
     (case mark_integers idxs (replicate (nat (numberOfVariables st)) False) of
        Inl e \<Rightarrow> Inl e
      | Inr flags \<Rightarrow> Inr (st \<lparr> isInt := flags \<rparr>))"

text \<open>
  \<open>processOBJ\<close>: the objective sense, the objective vector (read through the pointer to
  the objective itself) and \<open>objectiveIntegral\<close>, which a coefficient that is not an
  integer, or the coefficient of a variable that is not an integer variable, makes false.
\<close>

fun objective_integral :: "bool list \<Rightarrow> SVectorGMP \<Rightarrow> bool \<Rightarrow> error + bool" where
  "objective_integral flags [] acc = Inr acc"
| "objective_integral flags ((i, a) # v) acc =
     (if \<not> isInteger a then objective_integral flags v False
      else case isInt_at flags i of
             None \<Rightarrow> Inl Undefined
           | Some b \<Rightarrow> objective_integral flags v (if \<not> b then False else acc))"

definition processOBJ :: "vstate \<Rightarrow> string \<Rightarrow> coefspec \<Rightarrow> error + vstate" where
  "processOBJ st objectiveSense spec =
     (if objectiveSense \<noteq> ''min'' \<and> objectiveSense \<noteq> ''max'' then Inl Rejected
      else
        (case readConstraintCoefficients (numberOfVariables st) (objectiveCoefficients st)
                ObjPtr spec of
           Inl e \<Rightarrow> Inl e
         | Inr (p, obj, dummy) \<Rightarrow>
             if dummy \<and> \<not> ndebug st then Inl Undefined
             else
               (case objective_integral (isInt st) obj True of
                  Inl e \<Rightarrow> Inl e
                | Inr b \<Rightarrow>
                    Inr (st \<lparr> isMin := (objectiveSense = ''min''),
                              objectiveCoefficients := obj, objectiveIntegral := b \<rparr>))))"

text \<open>
  \<open>processCON\<close>: every constraint is read into a vector of its own and appended.  The
  return value is that of the last \<open>readConstraint\<close>, and \<open>false\<close> when there is no
  constraint.
\<close>

fun processCON_loop :: "vstate \<Rightarrow> con_line list \<Rightarrow> error + vstate" where
  "processCON_loop st [] = Inr st"
| "processCON_loop st (l # ls) =
     (case readConstraint (numberOfVariables st) (objectiveCoefficients st) (Own [])
             (cl_sense l) (cl_coef l) of
        Inl e \<Rightarrow> Inl e
      | Inr (s, coef, obj, dummy) \<Rightarrow>
          processCON_loop
            (st \<lparr> objectiveCoefficients := obj,
                  constraint := constraint st @
                    [new_Constraint obj (cl_label l) s (cl_rhs l) coef False {}] \<rparr>) ls)"

definition processCON :: "vstate \<Rightarrow> con_line list \<Rightarrow> error + vstate" where
  "processCON st ls =
     (if ls = [] then Inl Rejected
      else processCON_loop (st \<lparr> numberOfConstraints := int (length ls) \<rparr>) ls)"

text \<open>
  \<open>processRTP\<close>.  A bound other than \<open>-inf\<close> below, or other than \<open>inf\<close> above, is to
  be checked and is converted to a rational; the conversion of an infinity token throws.
\<close>

definition processRTP :: "vstate \<Rightarrow> rtp_spec \<Rightarrow> error + vstate" where
  "processRTP st rtp =
     (case rtp of
        RtpInfeas \<Rightarrow> Inr (st \<lparr> relationToProveType := INFEAS \<rparr>)
      | RtpOther t \<Rightarrow> Inl Rejected
      | RtpRange lowerTok upperTok \<Rightarrow>
          if lowerTok = PlusInf then Inl Undefined
          else if upperTok = MinusInf then Inl Undefined
          else
            let st1 = st \<lparr> relationToProveType := RANGE,
                           checkLower := (lowerTok \<noteq> MinusInf),
                           checkUpper := (upperTok \<noteq> PlusInf),
                           lowerBound := (case lowerTok of Number l \<Rightarrow> l | _ \<Rightarrow> lowerBound st),
                           upperBound := (case upperTok of Number u \<Rightarrow> u | _ \<Rightarrow> upperBound st) \<rparr>
            in if checkLower st1 \<and> checkUpper st1 \<and> lowerBound st1 > upperBound st1
               then Inl Rejected
               else if isMin st1 \<and> checkLower st1
               then Inr (st1 \<lparr> relationToProve :=
                           new_Constraint (objectiveCoefficients st1) ''rtp'' 1 (lowerBound st1)
                             ObjPtr False {} \<rparr>)
               else if \<not> isMin st1 \<and> checkUpper st1
               then Inr (st1 \<lparr> relationToProve :=
                           new_Constraint (objectiveCoefficients st1) ''rtp'' (- 1)
                             (upperBound st1) ObjPtr False {} \<rparr>)
               else Inr st1)"

text \<open>
  \<open>processSOL\<close>.  All solutions are read through one pointer, \<open>solutionSpecified\<close>, which
  starts at a vector of its own and is moved to the objective by a solution given as
  \<open>OBJ\<close>.  Each solution is checked: an integer variable must have an integer value, and
  \<open>satisfies\<close> must hold for the constraints \<open>0\<close> to \<open>numberOfConstraints - 1\<close>.  The
  objective value of the first solution, and every better one after it, becomes
  \<open>bestObjectiveValue\<close>.
\<close>

fun integrality_check :: "bool list \<Rightarrow> SVectorGMP \<Rightarrow> error + unit" where
  "integrality_check flags [] = Inr ()"
| "integrality_check flags ((j, a) # x) =
     (case isInt_at flags j of
        None \<Rightarrow> Inl Undefined
      | Some b \<Rightarrow>
          if b \<and> \<not> isInteger a then Inl Rejected else integrality_check flags x)"

definition satisfies :: "SVectorGMP \<Rightarrow> Constraint \<Rightarrow> SVectorGMP \<Rightarrow> error + bool" where
  "satisfies obj con x =
     (case deref obj (coefficients con) of
        None \<Rightarrow> Inl Undefined
      | Some c \<Rightarrow>
          Inr (if sense con < 0 then scalarProduct c x \<le> rhs con
               else if sense con > 0 then scalarProduct c x \<ge> rhs con
               else rhs con = scalarProduct c x))"

fun satisfies_all :: "SVectorGMP \<Rightarrow> Constraint list \<Rightarrow> SVectorGMP \<Rightarrow> error + unit" where
  "satisfies_all obj [] x = Inr ()"
| "satisfies_all obj (con # cons) x =
     (case satisfies obj con x of
        Inl e \<Rightarrow> Inl e
      | Inr b \<Rightarrow> if \<not> b then Inl Rejected else satisfies_all obj cons x)"

fun processSOL_loop ::
  "vstate \<Rightarrow> coefptr \<Rightarrow> nat \<Rightarrow> (string \<times> coefspec) list \<Rightarrow> error + vstate" where
  "processSOL_loop st solutionSpecified i [] = Inr st"
| "processSOL_loop st solutionSpecified i ((lbl, spec) # sols) =
     (case readConstraintCoefficients (numberOfVariables st) (objectiveCoefficients st)
             solutionSpecified spec of
        Inl e \<Rightarrow> Inl Rejected
      | Inr (p, obj, dummy) \<Rightarrow>
          (case deref obj p of
             None \<Rightarrow> Inl Undefined
           | Some x \<Rightarrow>
               (case integrality_check (isInt st) x of
                  Inl e \<Rightarrow> Inl e
                | Inr _ \<Rightarrow>
                    (case satisfies_all obj
                            (take (nat (numberOfConstraints st)) (constraint st)) x of
                       Inl e \<Rightarrow> Inl e
                     | Inr _ \<Rightarrow>
                         processSOL_loop
                           (st \<lparr> objectiveCoefficients := obj,
                                 bestObjectiveValue :=
                                   (if i \<noteq> 0 then
                                      if isMin st \<and> scalarProduct obj x < bestObjectiveValue st
                                      then scalarProduct obj x
                                      else if \<not> isMin st
                                              \<and> scalarProduct obj x > bestObjectiveValue st
                                      then scalarProduct obj x
                                      else bestObjectiveValue st
                                    else scalarProduct obj x) \<rparr>)
                           p (Suc i) sols))))"

definition processSOL :: "vstate \<Rightarrow> (string \<times> coefspec) list \<Rightarrow> error + vstate" where
  "processSOL st sols =
     (case processSOL_loop (st \<lparr> numberOfSolutions := int (length sols) \<rparr>) (Own []) 0 sols of
        Inl e \<Rightarrow> Inl e
      | Inr st1 \<Rightarrow>
          if numberOfSolutions st1 \<noteq> 0 then
            if isMin st1 \<and> checkUpper st1 \<and> bestObjectiveValue st1 > upperBound st1
            then Inl Rejected
            else if \<not> isMin st1 \<and> checkLower st1 \<and> bestObjectiveValue st1 < lowerBound st1
            then Inl Rejected
            else Inr st1
          else if relationToProveType st1 = RANGE
                  \<and> ((isMin st1 \<and> checkUpper st1) \<or> (\<not> isMin st1 \<and> checkLower st1))
          then Inl Rejected
          else Inr st1)"



text \<open>
  The objective value of a solution that the certificate gives by its entries, as
  \<open>processSOL\<close> computes it.
\<close>

definition solution_value :: "vstate \<Rightarrow> coefspec \<Rightarrow> rat" where
  "solution_value st spec =
     (case spec of
        TokOBJ \<Rightarrow> 0
      | Entries es \<Rightarrow>
          (case fill_entries (numberOfVariables st) es [] of
             Inl e \<Rightarrow> 0
           | Inr v \<Rightarrow> scalarProduct (objectiveCoefficients st) (compactify v)))"


section \<open>The main function of the verifier\<close>

text \<open>
  \<open>main\<close> runs the sections in order and stops at the first that fails; the version
  line is taken as read and accepted.  The result names
  the section in which the run failed and how, or is \<open>Inr ()\<close> for the status \<open>OKAY\<close>.
  The state at the start holds the zero-initialised globals.
\<close>

datatype section_name = SecVAR | SecINT | SecOBJ | SecCON | SecRTP | SecSOL | SecDER

definition initial_state :: "bool \<Rightarrow> vstate" where
  "initial_state nd =
     \<lparr> ndebug = nd, numberOfVariables = 0, numberOfConstraints = 0, numberOfSolutions = 0,
       isInt = [], constraint = [], relationToProveType = INFEAS, bestObjectiveValue = 0,
       lowerBound = 0, upperBound = 0, isMin = False, checkLower = False,
       checkUpper = False,
       relationToProve =
         \<lparr> label = [], sense = 0, rhs = 0, coefficients = Nullptr, refIdx = - 1,
           isAssumption = False, assumptionList = {}, falsehood = False,
           coefsEqualObj = False, trashed = False \<rparr>,
       objectiveCoefficients = [], objectiveIntegral = False \<rparr>"

definition in_section :: "section_name \<Rightarrow> error + 'a \<Rightarrow> (section_name \<times> error) + 'a" where
  "in_section sec r = (case r of Inl e \<Rightarrow> Inl (sec, e) | Inr x \<Rightarrow> Inr x)"

definition main_vipr :: "bool \<Rightarrow> certificate \<Rightarrow> (section_name \<times> error) + unit" where
  "main_vipr nd cert =
     (case in_section SecVAR (processVAR (initial_state nd) (c_variables cert)) of
        Inl e \<Rightarrow> Inl e
      | Inr s1 \<Rightarrow>
     (case in_section SecINT (processINT s1 (c_integers cert)) of
        Inl e \<Rightarrow> Inl e
      | Inr s2 \<Rightarrow>
     (case in_section SecOBJ (processOBJ s2 (c_objsense cert) (c_obj cert)) of
        Inl e \<Rightarrow> Inl e
      | Inr s3 \<Rightarrow>
     (case in_section SecCON (processCON s3 (c_constraints cert)) of
        Inl e \<Rightarrow> Inl e
      | Inr s4 \<Rightarrow>
     (case in_section SecRTP (processRTP s4 (c_rtp cert)) of
        Inl e \<Rightarrow> Inl e
      | Inr s5 \<Rightarrow>
     (case in_section SecSOL (processSOL s5 (c_solutions cert)) of
        Inl e \<Rightarrow> Inl e
      | Inr s6 \<Rightarrow> in_section SecDER (processDER s6 (c_derivations cert))))))))"


section \<open>Consistent constraint objects\<close>

text \<open>
  A constraint object is consistent when its coefficient pointer is not null, the vector
  it points to has no zero entry and the stored \<open>_falsehood\<close> is the value of
  \<open>_isFalsehood\<close>.  The constructor establishes this and \<open>round\<close> keeps it
  (lemmas \<open>new_Constraint_consistent\<close> and \<open>round_con_consistent\<close>).
\<close>

definition consistent :: "SVectorGMP \<Rightarrow> Constraint \<Rightarrow> bool" where
  "consistent obj c \<longleftrightarrow>
     (case deref obj (coefficients c) of
        None \<Rightarrow> False
      | Some v \<Rightarrow> compactify v = v \<and> falsehood c = isFalsehood_of v (sense c) (rhs c))"



section \<open>States the verifier builds\<close>

text \<open>
  What holds of the constraints and of the objective in every state the verifier reaches
  (lemmas \<open>before_DER_built\<close> and \<open>derive_built\<close> below): a sense is \<open>-1\<close>, \<open>0\<close> or
  \<open>1\<close>; an assumption is an index of the constraint vector; an entry that is not zero
  belongs to a variable; and a constraint is trashed exactly when its coefficient pointer
  is null.
\<close>

definition entries_in_range :: "int \<Rightarrow> SVectorGMP \<Rightarrow> bool" where
  "entries_in_range nvar v \<longleftrightarrow> \<not> list_ex (\<lambda>(index, a). a \<noteq> 0 \<and> (index < 0 \<or> index \<ge> nvar)) v"

definition built_con :: "int \<Rightarrow> nat \<Rightarrow> Constraint \<Rightarrow> bool" where
  "built_con nvar len c \<longleftrightarrow>
     (sense c = - 1 \<or> sense c = 0 \<or> sense c = 1)
     \<and> assumptionList c \<subseteq> {0 ..< int len}
     \<and> (case coefficients c of Own v \<Rightarrow> entries_in_range nvar v | _ \<Rightarrow> True)
     \<and> (trashed c \<longleftrightarrow> coefficients c = Nullptr)"

definition built :: "vstate \<Rightarrow> bool" where
  "built st \<longleftrightarrow>
     entries_in_range (numberOfVariables st) (objectiveCoefficients st)
     \<and> list_all (built_con (numberOfVariables st) (length (constraint st))) (constraint st)"

text \<open>
  What the sections between \<open>OBJ\<close> and \<open>DER\<close> leave as it is when no solution is
  given by the token \<open>OBJ\<close>: the objective, its sense and its integrality, and the
  variables.
\<close>

definition same_objective :: "vstate \<Rightarrow> vstate \<Rightarrow> bool" where
  "same_objective st st' \<longleftrightarrow>
     objectiveCoefficients st' = objectiveCoefficients st \<and> isMin st' = isMin st
     \<and> objectiveIntegral st' = objectiveIntegral st \<and> isInt st' = isInt st
     \<and> numberOfVariables st' = numberOfVariables st"

text \<open>The state in which \<open>main\<close> calls \<open>processDER\<close>.\<close>

definition before_DER :: "bool \<Rightarrow> certificate \<Rightarrow> (section_name \<times> error) + vstate" where
  "before_DER nd cert =
     (case in_section SecVAR (processVAR (initial_state nd) (c_variables cert)) of
        Inl e \<Rightarrow> Inl e
      | Inr s1 \<Rightarrow>
     (case in_section SecINT (processINT s1 (c_integers cert)) of
        Inl e \<Rightarrow> Inl e
      | Inr s2 \<Rightarrow>
     (case in_section SecOBJ (processOBJ s2 (c_objsense cert) (c_obj cert)) of
        Inl e \<Rightarrow> Inl e
      | Inr s3 \<Rightarrow>
     (case in_section SecCON (processCON s3 (c_constraints cert)) of
        Inl e \<Rightarrow> Inl e
      | Inr s4 \<Rightarrow>
     (case in_section SecRTP (processRTP s4 (c_rtp cert)) of
        Inl e \<Rightarrow> Inl e
      | Inr s5 \<Rightarrow> in_section SecSOL (processSOL s5 (c_solutions cert)))))))"


section \<open>The multiplier sign rule, as the specification words it\<close>




text \<open>
  Reading the terms of a linear combination is defined when no term makes
  \<open>readMultipliers\<close> touch what is not there.  A term with a zero multiplier or a negative
  index never does.  Any other term cites a constraint of the vector, which the build
  without \<open>NDEBUG\<close> must be able to print, or an index beyond the vector, which only the
  build without \<open>NDEBUG\<close> checks.
\<close>

definition printable :: "vstate \<Rightarrow> Constraint \<Rightarrow> bool" where
  "printable st c \<longleftrightarrow>
     print_con (ndebug st) (numberOfVariables st) (objectiveCoefficients st) (constraint st) c
       = Inr ()"

definition reads_defined :: "vstate \<Rightarrow> (int \<times> rat) list \<Rightarrow> bool" where
  "reads_defined st ts \<longleftrightarrow>
     list_all (\<lambda>(i, a). a = 0 \<or> i < 0
                 \<or> (case con_at (constraint st) i of
                       None \<Rightarrow> \<not> ndebug st
                     | Some c \<Rightarrow> ndebug st \<or> printable st c)) ts"



section \<open>Example inputs\<close>

text \<open>
  A minimisation of \<open>x0\<close> over one integer variable with the bounds \<open>x0 \<le> 10\<close> and
  \<open>x0 \<ge> 0\<close>, whose range to prove has its lower bound above its upper bound.
\<close>

definition cert_inverted_range :: certificate where
  "cert_inverted_range =
     \<lparr> c_variables = [''x''], c_integers = [0], c_objsense = ''min'',
       c_obj = Entries [(0, 1)],
       c_constraints =
         [\<lparr> cl_label = ''b1'', cl_sense = CHR ''L'', cl_rhs = 10, cl_coef = Entries [(0, 1)] \<rparr>,
          \<lparr> cl_label = ''b2'', cl_sense = CHR ''G'', cl_rhs = 0, cl_coef = Entries [(0, 1)] \<rparr>],
       c_rtp = RtpRange (Number 10) (Number 0),
       c_solutions = [(''s'', Entries [(0, 0)])],
       c_derivations = [] \<rparr>"

text \<open>
  The state before a cutoff step: the objective \<open>x0\<close> over one integer variable, best
  objective value \<open>7\<close>; and the step \<open>c L 6 OBJ { sol } -1\<close>.
\<close>

definition st_cutoff :: vstate where
  "st_cutoff =
     (initial_state True)
       \<lparr> numberOfVariables := 1, numberOfSolutions := 1, isInt := [True],
         bestObjectiveValue := 7, isMin := True, objectiveCoefficients := [(0, 1)],
         objectiveIntegral := True \<rparr>"

definition step_cutoff :: der_line where
  "step_cutoff =
     \<lparr> cl_label = ''c'', cl_sense = CHR ''L'', cl_rhs = 6, cl_coef = TokOBJ,
       dl_open = ''{'', dl_reason = SOL, dl_closing = ''}'', dl_refIdx = - 1 \<rparr>"

text \<open>
  The state before an unsplit step: the bound \<open>x0 \<le> 5\<close>, the assumptions \<open>x0 \<le> 0\<close>
  (index 1) and \<open>x0 \<ge> 1\<close> (index 2), and \<open>x0 \<le> 9\<close> derived once under the
  assumptions 1 and 7 (index 3) and once under 2 and 8 (index 4); and the step
  \<open>u L 9 1 0 1 { uns 3 1 4 2 } -1\<close>.
\<close>

definition st_unsplit :: vstate where
  "st_unsplit =
     (initial_state True)
       \<lparr> numberOfVariables := 1, numberOfConstraints := 1, isInt := [True],
         constraint :=
           [new_Constraint [] ''c0'' (- 1) 5 (Own [(0, 1)]) False {},
            new_Constraint [] ''a1'' (- 1) 0 (Own [(0, 1)]) True {1},
            new_Constraint [] ''a2'' 1 1 (Own [(0, 1)]) True {2},
            new_Constraint [] ''r1'' (- 1) 9 (Own [(0, 1)]) False {1, 7},
            new_Constraint [] ''r2'' (- 1) 9 (Own [(0, 1)]) False {2, 8}] \<rparr>"

definition step_unsplit :: der_line where
  "step_unsplit =
     \<lparr> cl_label = ''u'', cl_sense = CHR ''L'', cl_rhs = 9, cl_coef = Entries [(0, 1)],
       dl_open = ''{'', dl_reason = UNS 3 1 4 2, dl_closing = ''}'', dl_refIdx = - 1 \<rparr>"

text \<open>
  The infeasible problem \<open>x0 \<le> -1\<close>, \<open>x0 \<ge> 1\<close> with the derivation of \<open>0 \<le> -2\<close>, whose
  linear combination also cites the index 99 with multiplier zero.
\<close>

definition cert_zero_multiplier :: certificate where
  "cert_zero_multiplier =
     \<lparr> c_variables = [''x''], c_integers = [], c_objsense = ''min'', c_obj = Entries [],
       c_constraints =
         [\<lparr> cl_label = ''c1'', cl_sense = CHR ''L'', cl_rhs = - 1, cl_coef = Entries [(0, 1)] \<rparr>,
          \<lparr> cl_label = ''c2'', cl_sense = CHR ''G'', cl_rhs = 1, cl_coef = Entries [(0, 1)] \<rparr>],
       c_rtp = RtpInfeas,
       c_solutions = [],
       c_derivations =
         [\<lparr> cl_label = ''d'', cl_sense = CHR ''L'', cl_rhs = - 2, cl_coef = Entries [],
            dl_open = ''{'', dl_reason = LIN [(0, 1), (1, - 1), (99, 0)], dl_closing = ''}'',
            dl_refIdx = - 1 \<rparr>] \<rparr>"

text \<open>
  Steps that cite an index outside the five constraints of \<open>st_unsplit\<close>: a negative
  multiplier index, and an unsplit whose second branch is the index 5.
\<close>

definition step_negative_index :: der_line where
  "step_negative_index =
     \<lparr> cl_label = ''n'', cl_sense = CHR ''L'', cl_rhs = 5, cl_coef = Entries [(0, 1)],
       dl_open = ''{'', dl_reason = LIN [(0, 1), (- 1, 1)], dl_closing = ''}'',
       dl_refIdx = - 1 \<rparr>"


text \<open>
  A minimisation of \<open>2 x0\<close> with the constraint \<open>2 x0 \<ge> 1\<close>, written with the token
  \<open>OBJ\<close>, no bound to prove, and two solutions: the first is the token \<open>OBJ\<close>, the
  second is \<open>x0 = -2\<close>.
\<close>

definition cert_solution_alias :: certificate where
  "cert_solution_alias =
     \<lparr> c_variables = [''x''], c_integers = [], c_objsense = ''min'',
       c_obj = Entries [(0, 2)],
       c_constraints =
         [\<lparr> cl_label = ''c1'', cl_sense = CHR ''G'', cl_rhs = 1, cl_coef = TokOBJ \<rparr>],
       c_rtp = RtpRange MinusInf PlusInf,
       c_solutions = [(''s1'', TokOBJ), (''s2'', Entries [(0, - 2)])],
       c_derivations = [] \<rparr>"



text \<open>
  The problem \<open>min x0\<close>, \<open>x0 \<ge> 1\<close> over one integer variable, to be proved
  infeasible, with no solution and two derivations: the cutoff \<open>x0 \<le> -1\<close> by \<open>sol\<close>
  and \<open>0 \<ge> 1\<close> by the linear combination of the constraint and the cutoff.
\<close>

definition cert_cutoff_no_solution :: certificate where
  "cert_cutoff_no_solution =
     \<lparr> c_variables = [''x''], c_integers = [0], c_objsense = ''min'',
       c_obj = Entries [(0, 1)],
       c_constraints =
         [\<lparr> cl_label = ''c1'', cl_sense = CHR ''G'', cl_rhs = 1, cl_coef = Entries [(0, 1)] \<rparr>],
       c_rtp = RtpInfeas,
       c_solutions = [],
       c_derivations =
         [\<lparr> cl_label = ''cut'', cl_sense = CHR ''L'', cl_rhs = - 1, cl_coef = TokOBJ,
            dl_open = ''{'', dl_reason = SOL, dl_closing = ''}'', dl_refIdx = - 1 \<rparr>,
          \<lparr> cl_label = ''f'', cl_sense = CHR ''G'', cl_rhs = 1, cl_coef = Entries [],
            dl_open = ''{'', dl_reason = LIN [(0, 1), (1, - 1)], dl_closing = ''}'',
            dl_refIdx = - 1 \<rparr>] \<rparr>"


section \<open>The completer: weak domination\<close>

text \<open>
  The part of viprcomp\_parallel.cpp that completes a \<open>lin\<close> derivation marked \<open>weak\<close>.
  A constraint of the completer is a sparse vector, a side and a sense.  The claimed
  coefficient vector \<open>row\<close> is a \<open>DSVectorRational\<close>: the list of its stored entries,
  \<open>row[idx]\<close> being the value stored for \<open>idx\<close> or zero.  The tables \<open>lowerBounds\<close> and
  \<open>upperBounds\<close> hold for each variable a bound value, the factor of the bound
  constraint and its index in the certificate.  The text after \<open>weak\<close> is modelled after
  lexing: the local bounds between the brackets and the multipliers.
\<close>

record CConstraint =
  vec :: SVectorGMP
  side :: rat
  csense :: int

definition row_at :: "SVectorGMP \<Rightarrow> int \<Rightarrow> rat" where
  "row_at row idx = (case find_entry row idx of None \<Rightarrow> 0 | Some v \<Rightarrow> v)"

definition ccon_at :: "CConstraint list \<Rightarrow> int \<Rightarrow> CConstraint option" where
  "ccon_at cons i = (if 0 \<le> i \<and> nat i < length cons then Some (cons ! nat i) else None)"

text \<open>
  \<open>readMultipliers\<close> of the completer.  The sense is not reset: the loop starts from the
  sense its caller passes, which is the claimed sense.  No index is checked.
\<close>

fun readMultipliers_comp ::
  "CConstraint list \<Rightarrow> (int \<times> rat) list \<Rightarrow> int \<Rightarrow> SVectorGMP
     \<Rightarrow> error + (int \<times> SVectorGMP)" where
  "readMultipliers_comp cons [] s mult = Inr (s, mult)"
| "readMultipliers_comp cons ((index, a) # ts) s mult =
     (if a = 0 then readMultipliers_comp cons ts s mult
      else case ccon_at cons index of
             None \<Rightarrow> Inl Undefined
           | Some c \<Rightarrow>
               if s = 0
               then readMultipliers_comp cons ts (csense c * sgn_mpq a)
                      (set_entry index a mult)
               else if csense c * sgn_mpq a \<noteq> 0 \<and> s \<noteq> csense c * sgn_mpq a
                    then Inl Rejected
                    else readMultipliers_comp cons ts s (set_entry index a mult))"

text \<open>
  \<open>readLinComb\<close> of the completer: the combination of the cited constraints, entry by
  entry, and of their sides.  The result is the sense, the side, the coefficients and
  the multipliers.
\<close>

fun add_multiple_comp :: "rat \<Rightarrow> SVectorGMP \<Rightarrow> SVectorGMP \<Rightarrow> SVectorGMP \<Rightarrow> SVectorGMP" where
  "add_multiple_comp a c [] coef = coef"
| "add_multiple_comp a c ((i, b) # es) coef =
     add_multiple_comp a c es (add_entry i (a * row_at c i) coef)"

fun readLinComb_comp_loop ::
  "CConstraint list \<Rightarrow> SVectorGMP \<Rightarrow> rat \<times> SVectorGMP \<Rightarrow> error + (rat \<times> SVectorGMP)" where
  "readLinComb_comp_loop cons [] acc = Inr acc"
| "readLinComb_comp_loop cons ((index, a) # mult) (r, coef) =
     (case ccon_at cons index of
        None \<Rightarrow> Inl Undefined
      | Some con \<Rightarrow>
          readLinComb_comp_loop cons mult
            (r + a * side con, add_multiple_comp a (vec con) (vec con) coef))"

definition readLinComb_comp ::
  "CConstraint list \<Rightarrow> int \<Rightarrow> (int \<times> rat) list
     \<Rightarrow> error + (int \<times> rat \<times> SVectorGMP \<times> SVectorGMP)" where
  "readLinComb_comp cons s ts =
     (case readMultipliers_comp cons ts s [] of
        Inl e \<Rightarrow> Inl e
      | Inr (s', mult) \<Rightarrow>
          (case readLinComb_comp_loop cons mult (0, []) of
             Inl e \<Rightarrow> Inl e
           | Inr (r, coef) \<Rightarrow> Inr (s', r, coef, mult)))"

text \<open>
  The local bounds of the annotation \<open>weak { n  type var index value ... }\<close>: a later
  entry for a variable replaces an earlier one; a type other than \<open>L\<close> and \<open>U\<close> aborts.
\<close>

fun local_bounds ::
  "(string \<times> int \<times> int \<times> rat) list \<Rightarrow> (int \<rightharpoonup> int \<times> rat) \<times> (int \<rightharpoonup> int \<times> rat)
     \<Rightarrow> error + ((int \<rightharpoonup> int \<times> rat) \<times> (int \<rightharpoonup> int \<times> rat))" where
  "local_bounds [] acc = Inr acc"
| "local_bounds ((ty, varIndex, boundIndex, v) # bs) (lower, upper) =
     (if ty = ''L'' then local_bounds bs (lower (varIndex \<mapsto> (boundIndex, v)), upper)
      else if ty = ''U'' then local_bounds bs (lower, upper (varIndex \<mapsto> (boundIndex, v)))
      else Inl Undefined)"

text \<open>
  The correction of one coefficient gap \<open>boundmult\<close> on the variable \<open>idx\<close>, which both
  loops of \<open>completeWeakDomination\<close> perform: the side of the bound is chosen from the
  sense and the sign of the gap, an equality stops the completion, the local bound is
  preferred to the global one, the multiplier of the bound constraint grows by the gap
  divided by the factor, and the corrected side by the gap times the bound value.
\<close>

definition global_bound :: "(rat \<times> rat \<times> int) list \<Rightarrow> int \<Rightarrow> (int \<times> rat \<times> rat) option" where
  "global_bound bounds idx =
     (if 0 \<le> idx \<and> nat idx < length bounds
      then (case bounds ! nat idx of (boundval, boundfactor, boundindex) \<Rightarrow>
              Some (boundindex, boundval, boundfactor))
      else None)"

definition correct_gap ::
  "int \<Rightarrow> (int \<rightharpoonup> int \<times> rat) \<Rightarrow> (int \<rightharpoonup> int \<times> rat)
     \<Rightarrow> (rat \<times> rat \<times> int) list \<Rightarrow> (rat \<times> rat \<times> int) list
     \<Rightarrow> int \<Rightarrow> rat \<Rightarrow> SVectorGMP \<times> rat \<Rightarrow> error + (SVectorGMP \<times> rat)" where
  "correct_gap consense localLower localUpper lowerBounds upperBounds idx boundmult acc =
     (if consense \<noteq> - 1 \<and> consense \<noteq> 1
      then (if consense = 0 then Inl Rejected else Inl Undefined)
      else
        (case (if (if consense = - 1 then boundmult \<le> 0 else boundmult \<ge> 0)
               then (case localLower idx of
                       Some (boundindex, boundval) \<Rightarrow> Some (boundindex, boundval, 1)
                     | None \<Rightarrow> global_bound lowerBounds idx)
               else (case localUpper idx of
                       Some (boundindex, boundval) \<Rightarrow> Some (boundindex, boundval, 1)
                     | None \<Rightarrow> global_bound upperBounds idx)) of
           None \<Rightarrow> Inl Undefined
         | Some (boundindex, boundval, boundfactor) \<Rightarrow>
             if boundfactor = 0 then Inl Undefined
             else Inr (add_entry boundindex (boundmult / boundfactor) (fst acc),
                       snd acc + boundmult * boundval)))"

text \<open>
  The first loop runs over the entries of the combination and sets each to the claimed
  coefficient; the second runs over the entries of the claimed vector, where an index
  the combination lacks reads as zero.  The accumulator is \<open>coefDer\<close>, \<open>multDer\<close> and
  \<open>correctedSide\<close>.
\<close>

fun weak_loop1 ::
  "(int \<Rightarrow> rat \<Rightarrow> SVectorGMP \<times> rat \<Rightarrow> error + (SVectorGMP \<times> rat)) \<Rightarrow> SVectorGMP
     \<Rightarrow> SVectorGMP \<Rightarrow> SVectorGMP \<times> SVectorGMP \<times> rat
     \<Rightarrow> error + (SVectorGMP \<times> SVectorGMP \<times> rat)" where
  "weak_loop1 correct row [] acc = Inr acc"
| "weak_loop1 correct row ((idx, derivedVal) # es) (coefDer, multDer, correctedSide) =
     (if derivedVal = row_at row idx
      then weak_loop1 correct row es
             (set_entry idx (row_at row idx) coefDer, multDer, correctedSide)
      else case correct idx (row_at row idx - derivedVal) (multDer, correctedSide) of
             Inl e \<Rightarrow> Inl e
           | Inr (m, cs) \<Rightarrow>
               weak_loop1 correct row es (set_entry idx (row_at row idx) coefDer, m, cs))"

fun weak_loop2 ::
  "(int \<Rightarrow> rat \<Rightarrow> SVectorGMP \<times> rat \<Rightarrow> error + (SVectorGMP \<times> rat)) \<Rightarrow> SVectorGMP
     \<Rightarrow> SVectorGMP \<Rightarrow> SVectorGMP \<times> SVectorGMP \<times> rat
     \<Rightarrow> error + (SVectorGMP \<times> SVectorGMP \<times> rat)" where
  "weak_loop2 correct row [] acc = Inr acc"
| "weak_loop2 correct row ((idx, v) # es) (coefDer, multDer, correctedSide) =
     (if row_at coefDer idx = row_at row idx
      then weak_loop2 correct row es (add_entry idx 0 coefDer, multDer, correctedSide)
      else case correct idx (row_at row idx - row_at coefDer idx) (multDer, correctedSide) of
             Inl e \<Rightarrow> Inl e
           | Inr (m, cs) \<Rightarrow> weak_loop2 correct row es (add_entry idx 0 coefDer, m, cs))"

text \<open>
  \<open>completeWeakDomination(row, consense, rhs, completedLine, baseLine)\<close>.  \<open>consense\<close> is
  passed on to \<open>readLinComb\<close> by reference and is, from there on, the sense that
  \<open>readMultipliers\<close> leaves in it.  \<open>Inl Rejected\<close> is an early \<open>return false\<close>; otherwise
  the result is \<open>success\<close>, the multipliers written to the completed line, and the
  corrected side.
\<close>

definition weak_success :: "int \<Rightarrow> SVectorGMP \<Rightarrow> rat \<Rightarrow> rat \<Rightarrow> bool" where
  "weak_success consense row claimedRhs correctedSide =
     (if (consense = - 1 \<and> correctedSide > claimedRhs) \<or> (consense = 1 \<and> correctedSide < claimedRhs)
      then (if length row = 0
            then (consense = - 1 \<and> correctedSide < 0) \<or> (consense = 1 \<and> correctedSide > 0)
            else False)
      else True)"

definition completeWeakDomination ::
  "CConstraint list \<Rightarrow> (rat \<times> rat \<times> int) list \<Rightarrow> (rat \<times> rat \<times> int) list
     \<Rightarrow> SVectorGMP \<Rightarrow> int \<Rightarrow> rat \<Rightarrow> (string \<times> int \<times> int \<times> rat) list \<Rightarrow> (int \<times> rat) list
     \<Rightarrow> error + (bool \<times> SVectorGMP \<times> rat)" where
  "completeWeakDomination cons lowerBounds upperBounds row consense claimedRhs bounds ts =
     (case local_bounds bounds (Map.empty, Map.empty) of
        Inl e \<Rightarrow> Inl e
      | Inr (localLower, localUpper) \<Rightarrow>
          (case readLinComb_comp cons consense ts of
             Inl e \<Rightarrow> Inl e
           | Inr (s, rhsDer, coefDer, multDer) \<Rightarrow>
               (case weak_loop1 (correct_gap s localLower localUpper lowerBounds upperBounds)
                       row coefDer (coefDer, multDer, rhsDer) of
                  Inl e \<Rightarrow> Inl e
                | Inr acc1 \<Rightarrow>
                    (case weak_loop2
                            (correct_gap s localLower localUpper lowerBounds upperBounds)
                            row row acc1 of
                       Inl e \<Rightarrow> Inl e
                     | Inr (coefDer2, multDer2, correctedSide) \<Rightarrow>
                         Inr (weak_success s row claimedRhs correctedSide, multDer2,
                              correctedSide)))))"

text \<open>
  Inputs of weak completions.  The constraints \<open>x0 = 3\<close> and \<open>x0 \<le> 3\<close>; a variable
  with the upper bound \<open>4\<close>, which is constraint \<open>7\<close> of the certificate.
\<close>

definition ccons_example :: "CConstraint list" where
  "ccons_example =
     [\<lparr> vec = [(0, 1)], side = 3, csense = 0 \<rparr>, \<lparr> vec = [(0, 1)], side = 3, csense = - 1 \<rparr>]"

definition lower_example :: "(rat \<times> rat \<times> int) list" where
  "lower_example = [(0, 1, 6)]"

definition upper_example :: "(rat \<times> rat \<times> int) list" where
  "upper_example = [(4, 1, 7)]"


text \<open>
  A coefficient correction is needed when an entry of the combination differs from the
  claimed coefficient, or a claimed entry from the coefficient of the combination.
\<close>

definition needs_correction :: "SVectorGMP \<Rightarrow> SVectorGMP \<Rightarrow> bool" where
  "needs_correction row coefDer \<longleftrightarrow>
     list_ex (\<lambda>(idx, v). v \<noteq> row_at row idx) coefDer
     \<or> list_ex (\<lambda>(idx, v). row_at coefDer idx \<noteq> row_at row idx) row"



section \<open>The incompletifier: the DER section\<close>

text \<open>
  incompletify.cpp copies a certificate token by token.  The input is the list of its
  whitespace-separated tokens and the output the list of the tokens written; the white
  space written between them is left out.  An extraction that fails (no token left, no
  number where one is read, or a number outside the range of \<open>long\<close>) is the result
  \<open>ExtractionFailed\<close>: the program does not test the stream in the DER section, and what
  it does after a failed extraction is not modelled.  \<open>Unrepresentable\<close> is a number that
  does not fit the \<open>int\<close> that is to hold it (the result of \<open>atoi\<close>, a loop counter),
  for which C++ defines no behaviour.
\<close>

datatype stream_error = ExtractionFailed | Unrepresentable

text \<open>The ranges of a 64-bit \<open>long\<close> and of a 32-bit \<open>int\<close>.\<close>

definition long_min :: int where "long_min = - (2 ^ 63)"

definition long_max :: int where "long_max = 2 ^ 63 - 1"

definition int_min :: int where "int_min = - (2 ^ 31)"

definition int_max :: int where "int_max = 2 ^ 31 - 1"

text \<open>
  Reading a \<open>long\<close> takes an optional sign and the digits that follow from the front of
  the next token and leaves the rest of the token in the stream; the extraction fails
  when their value is not in the range of \<open>long\<close>.  Writing a \<open>long\<close> gives its decimal
  digits.  \<open>atoi\<close> is the value of such a prefix, or zero, when that is in the range of
  \<open>int\<close>.
\<close>

definition is_digit :: "char \<Rightarrow> bool" where
  "is_digit c \<longleftrightarrow> 48 \<le> (of_char c :: nat) \<and> (of_char c :: nat) \<le> 57"

definition nat_of_digits :: "string \<Rightarrow> nat" where
  "nat_of_digits ds = foldl (\<lambda>n c. 10 * n + ((of_char c :: nat) - 48)) 0 ds"

definition split_long :: "string \<Rightarrow> (string \<times> string) option" where
  "split_long s =
     (let sgn = (case s of c # r \<Rightarrow> if c = CHR ''-'' \<or> c = CHR ''+'' then [c] else [] | [] \<Rightarrow> []);
          body = drop (length sgn) s
      in if takeWhile is_digit body = [] then None
         else Some (sgn @ takeWhile is_digit body, dropWhile is_digit body))"

definition long_of :: "string \<Rightarrow> int" where
  "long_of s =
     (case s of
        c # r \<Rightarrow>
          if c = CHR ''-'' then - int (nat_of_digits r)
          else if c = CHR ''+'' then int (nat_of_digits r)
          else int (nat_of_digits s)
      | [] \<Rightarrow> 0)"

definition atoi :: "string \<Rightarrow> int option" where
  "atoi s =
     (case split_long s of
        None \<Rightarrow> Some 0
      | Some (num, rest) \<Rightarrow>
          if int_min \<le> long_of num \<and> long_of num \<le> int_max then Some (long_of num)
          else None)"

fun show_nat :: "nat \<Rightarrow> string" where
  "show_nat n =
     (if n < 10 then [char_of (48 + n)]
      else show_nat (n div 10) @ [char_of (48 + n mod 10)])"

definition show_long :: "int \<Rightarrow> string" where
  "show_long n = (if n < 0 then CHR ''-'' # show_nat (nat (- n)) else show_nat (nat n))"

text \<open>
  The reader and the writer of the rational library, for the tokens \<open>p\<close> and \<open>p/q\<close>: a
  rational is written in lowest terms, without the denominator one.
\<close>

definition rational_of :: "string \<Rightarrow> rat option" where
  "rational_of s =
     (case split_long s of
        None \<Rightarrow> None
      | Some (num, rest) \<Rightarrow>
          (case rest of
             [] \<Rightarrow> Some (of_int (long_of num))
           | c # den \<Rightarrow>
               if c = CHR ''/'' \<and> den \<noteq> [] \<and> list_all is_digit den \<and> nat_of_digits den \<noteq> 0
               then Some (Fract (long_of num) (int (nat_of_digits den)))
               else None))"

definition show_rational :: "rat \<Rightarrow> string" where
  "show_rational q =
     (case quotient_of q of
        (n, d) \<Rightarrow> if d = 1 then show_long n else show_long n @ ''/'' @ show_long d)"

text \<open>The extractions \<open>>> string\<close>, \<open>>> long\<close> and \<open>>> Rational\<close>.\<close>

definition get_word :: "string list \<Rightarrow> stream_error + (string \<times> string list)" where
  "get_word ts = (case ts of [] \<Rightarrow> Inl ExtractionFailed | t # r \<Rightarrow> Inr (t, r))"

definition get_long :: "string list \<Rightarrow> stream_error + (int \<times> string list)" where
  "get_long ts =
     (case ts of
        [] \<Rightarrow> Inl ExtractionFailed
      | t # r \<Rightarrow>
          (case split_long t of
             None \<Rightarrow> Inl ExtractionFailed
           | Some (num, rest) \<Rightarrow>
               if long_of num < long_min \<or> long_max < long_of num then Inl ExtractionFailed
               else Inr (long_of num, if rest = [] then r else rest # r)))"

definition get_rational :: "string list \<Rightarrow> stream_error + (rat \<times> string list)" where
  "get_rational ts =
     (case ts of
        [] \<Rightarrow> Inl ExtractionFailed
      | t # r \<Rightarrow>
          (case rational_of t of None \<Rightarrow> Inl ExtractionFailed | Some q \<Rightarrow> Inr (q, r)))"

text \<open>
  The settings of a run: the random draw of each pass of the loop (a number from 0 to
  100), the percentage, the two switches of the command line and the number of
  constraints.
\<close>

record inc_config =
  draw :: "nat \<Rightarrow> int"
  percentageIncomplete :: rat
  incomplete :: bool
  incompleteObj :: bool
  numberOfCons :: int

text \<open>
  The loops that copy index-value pairs: of a coefficient vector (the value is read as a
  string), of an \<open>rnd\<close> reason (the value is read as a rational), and of a \<open>lin\<close> reason,
  where a step made incomplete keeps only the indices of derived constraints.
\<close>

fun copy_pairs :: "nat \<Rightarrow> string list \<Rightarrow> stream_error + (string list \<times> string list)" where
  "copy_pairs 0 ts = Inr ([], ts)"
| "copy_pairs (Suc n) ts =
     (case get_long ts of
        Inl e \<Rightarrow> Inl e
      | Inr (idx, ts1) \<Rightarrow>
          (case get_word ts1 of
             Inl e \<Rightarrow> Inl e
           | Inr (v, ts2) \<Rightarrow>
               (case copy_pairs n ts2 of
                  Inl e \<Rightarrow> Inl e
                | Inr (out, ts3) \<Rightarrow> Inr (show_long idx # v # out, ts3))))"

fun copy_pairs_rnd :: "nat \<Rightarrow> string list \<Rightarrow> stream_error + (string list \<times> string list)" where
  "copy_pairs_rnd 0 ts = Inr ([], ts)"
| "copy_pairs_rnd (Suc n) ts =
     (case get_long ts of
        Inl e \<Rightarrow> Inl e
      | Inr (idx, ts1) \<Rightarrow>
          (case get_rational ts1 of
             Inl e \<Rightarrow> Inl e
           | Inr (v, ts2) \<Rightarrow>
               (case copy_pairs_rnd n ts2 of
                  Inl e \<Rightarrow> Inl e
                | Inr (out, ts3) \<Rightarrow> Inr (show_long idx # show_rational v # out, ts3))))"

fun copy_pairs_lin ::
  "bool \<Rightarrow> int \<Rightarrow> nat \<Rightarrow> string list \<Rightarrow> stream_error + (string list \<times> string list)" where
  "copy_pairs_lin makeincomplete nc 0 ts = Inr ([], ts)"
| "copy_pairs_lin makeincomplete nc (Suc n) ts =
     (case get_long ts of
        Inl e \<Rightarrow> Inl e
      | Inr (a_i, ts1) \<Rightarrow>
          (case get_word ts1 of
             Inl e \<Rightarrow> Inl e
           | Inr (todelete, ts2) \<Rightarrow>
               (case copy_pairs_lin makeincomplete nc n ts2 of
                  Inl e \<Rightarrow> Inl e
                | Inr (out, ts3) \<Rightarrow>
                    Inr ((if makeincomplete
                          then (if a_i \<ge> nc then [show_long a_i] else [])
                          else [show_long a_i, todelete]) @ out, ts3))))"

text \<open>
  The end of the branches \<open>asm\<close>, \<open>rnd\<close> and \<open>uns\<close>: a closing bracket is written with
  the index after it; any other token is written nowhere, and the return value is \<open>true\<close>
  in both cases.
\<close>

definition copy_closing :: "string list \<Rightarrow> stream_error + (string list \<times> string list)" where
  "copy_closing ts =
     (case get_word ts of
        Inl e \<Rightarrow> Inl e
      | Inr (bracket, ts1) \<Rightarrow>
          if bracket \<noteq> ''}'' then Inr ([], ts1)
          else (case get_long ts1 of
                  Inl e \<Rightarrow> Inl e
                | Inr (dernr, ts2) \<Rightarrow> Inr ([bracket, show_long dernr], ts2)))"

text \<open>
  The reason of a derivation, after the bracket and the kind have been read.  The result
  is the return value, the tokens written and the rest of the stream.  The loop over the
  pairs of an \<open>rnd\<close> reason counts in an \<open>int\<close> up to a \<open>long\<close>, and has no defined
  behaviour once the counter has reached the largest \<open>int\<close>.
\<close>

definition copy_reason ::
  "inc_config \<Rightarrow> nat \<Rightarrow> string \<Rightarrow> string \<Rightarrow> string \<Rightarrow> string list
     \<Rightarrow> stream_error + (bool \<times> string list \<times> string list)" where
  "copy_reason cfg i numberOfCoefficients bracket kind ts =
     (if bracket \<noteq> ''{'' then Inr (False, [], ts)
      else if kind = ''asm'' then
        (case copy_closing ts of
           Inl e \<Rightarrow> Inl e
         | Inr (out, ts1) \<Rightarrow> Inr (True, [bracket, kind] @ out, ts1))
      else if kind = ''lin'' then
        (case get_long ts of
           Inl e \<Rightarrow> Inl e
         | Inr (numberOfDer, ts1) \<Rightarrow>
             (case copy_pairs_lin
                     (\<not> (numberOfCoefficients = ''OBJ'' \<and> \<not> incompleteObj cfg)
                      \<and> of_int (draw cfg i) \<le> percentageIncomplete cfg \<and> incomplete cfg)
                     (numberOfCons cfg) (nat numberOfDer) ts1 of
                Inl e \<Rightarrow> Inl e
              | Inr (out, ts2) \<Rightarrow>
                  (case get_word ts2 of
                     Inl e \<Rightarrow> Inl e
                   | Inr (closing, ts3) \<Rightarrow>
                       (case get_long ts3 of
                          Inl e \<Rightarrow> Inl e
                        | Inr (derHir, ts4) \<Rightarrow>
                            Inr (True,
                                 [bracket, kind]
                                 @ (if of_int (draw cfg i) \<le> percentageIncomplete cfg
                                       \<and> (numberOfCoefficients \<noteq> ''OBJ'' \<or> incompleteObj cfg)
                                    then (if incomplete cfg then [''incomplete'']
                                          else [''weak'', ''{'', ''0'', ''}''])
                                    else [])
                                 @ [show_long numberOfDer] @ out
                                 @ [closing, show_long derHir], ts4)))))
      else if kind = ''rnd'' then
        (case get_long ts of
           Inl e \<Rightarrow> Inl e
         | Inr (n, ts1) \<Rightarrow>
             if int_max < n
             then (case copy_pairs_rnd (nat (int_max + 1)) ts1 of
                     Inl e \<Rightarrow> Inl e
                   | Inr _ \<Rightarrow> Inl Unrepresentable)
             else
               (case copy_pairs_rnd (nat n) ts1 of
                  Inl e \<Rightarrow> Inl e
                | Inr (out, ts2) \<Rightarrow>
                    (case copy_closing ts2 of
                       Inl e \<Rightarrow> Inl e
                     | Inr (out2, ts3) \<Rightarrow>
                         Inr (True, [bracket, kind] @ [show_long n] @ out @ out2, ts3))))
      else if kind = ''uns'' then
        (case get_long ts of
           Inl e \<Rightarrow> Inl e
         | Inr (i1, ts1) \<Rightarrow>
        (case get_long ts1 of
           Inl e \<Rightarrow> Inl e
         | Inr (l1, ts2) \<Rightarrow>
        (case get_long ts2 of
           Inl e \<Rightarrow> Inl e
         | Inr (i2, ts3) \<Rightarrow>
        (case get_long ts3 of
           Inl e \<Rightarrow> Inl e
         | Inr (l2, ts4) \<Rightarrow>
        (case copy_closing ts4 of
           Inl e \<Rightarrow> Inl e
         | Inr (out, ts5) \<Rightarrow>
             Inr (True,
                  [bracket, kind, show_long i1, show_long l1, show_long i2, show_long l2]
                  @ out, ts5))))))
      else Inr (False, [], ts))"

text \<open>
  One pass of the loop of \<open>processDER\<close>: the claimed constraint is copied, then the
  reason.
\<close>

definition copy_derivation ::
  "inc_config \<Rightarrow> nat \<Rightarrow> string list \<Rightarrow> stream_error + (bool \<times> string list \<times> string list)" where
  "copy_derivation cfg i ts =
     (case get_word ts of Inl e \<Rightarrow> Inl e | Inr (lbl, ts1) \<Rightarrow>
     (case get_word ts1 of Inl e \<Rightarrow> Inl e | Inr (consense, ts2) \<Rightarrow>
     (case get_word ts2 of Inl e \<Rightarrow> Inl e | Inr (rhsTok, ts3) \<Rightarrow>
     (case get_word ts3 of Inl e \<Rightarrow> Inl e | Inr (numberOfCoefficients, ts4) \<Rightarrow>
     (case (if numberOfCoefficients = ''OBJ'' then Inr ([], ts4)
            else (case atoi numberOfCoefficients of
                    None \<Rightarrow> Inl Unrepresentable
                  | Some intOfCoefficients \<Rightarrow> copy_pairs (nat intOfCoefficients) ts4)) of
        Inl e \<Rightarrow> Inl e
      | Inr (coefOut, ts5) \<Rightarrow>
     (case get_word ts5 of Inl e \<Rightarrow> Inl e | Inr (bracket, ts6) \<Rightarrow>
     (case get_word ts6 of Inl e \<Rightarrow> Inl e | Inr (kind, ts7) \<Rightarrow>
     (case copy_reason cfg i numberOfCoefficients bracket kind ts7 of
        Inl e \<Rightarrow> Inl e
      | Inr (ret, out, ts8) \<Rightarrow>
          Inr (ret, [lbl, consense, rhsTok, numberOfCoefficients] @ coefOut @ out,
               ts8)))))))))"

text \<open>
  The loop and \<open>processDER\<close>: the return value is that of the last pass, \<open>true\<close> when
  the number of derivations is zero, and \<open>false\<close> when the section header is missing.
  The loop counts the passes in an \<open>int\<close> up to the \<open>long\<close> number of derivations.
\<close>

fun copy_loop ::
  "inc_config \<Rightarrow> nat \<Rightarrow> nat \<Rightarrow> bool \<Rightarrow> string list
     \<Rightarrow> stream_error + (bool \<times> string list)" where
  "copy_loop cfg i 0 ret ts = Inr (ret, [])"
| "copy_loop cfg i (Suc n) ret ts =
     (case copy_derivation cfg i ts of
        Inl e \<Rightarrow> Inl e
      | Inr (ret1, out1, ts1) \<Rightarrow>
          (case copy_loop cfg (Suc i) n ret1 ts1 of
             Inl e \<Rightarrow> Inl e
           | Inr (ret2, out2) \<Rightarrow> Inr (ret2, out1 @ out2)))"

definition processDER_inc ::
  "inc_config \<Rightarrow> string list \<Rightarrow> stream_error + (bool \<times> string list)" where
  "processDER_inc cfg ts =
     (case get_word ts of
        Inl e \<Rightarrow> Inl e
      | Inr (sec, ts1) \<Rightarrow>
          if sec \<noteq> ''DER'' then Inr (False, [])
          else (case get_long ts1 of
                  Inl e \<Rightarrow> Inl e
                | Inr (numberOfDerivations, ts2) \<Rightarrow>
                    if numberOfDerivations = 0 then Inr (True, [sec, show_long 0])
                    else if int_max < numberOfDerivations
                    then (case copy_loop cfg 0 (nat (int_max + 1)) False ts2 of
                            Inl e \<Rightarrow> Inl e
                          | Inr _ \<Rightarrow> Inl Unrepresentable)
                    else (case copy_loop cfg 0 (nat numberOfDerivations) False ts2 of
                            Inl e \<Rightarrow> Inl e
                          | Inr (ret, out) \<Rightarrow>
                              Inr (ret, [sec, show_long numberOfDerivations] @ out))))"

text \<open>
  Well-formed derivations, as token lists.  A number token is canonical when it is read
  whole, is in the range of \<open>long\<close> and is written back as it stands.  A derivation is a
  label, a sense, a right-hand side, a coefficient vector (\<open>OBJ\<close>, or a count and that
  many pairs), a reason between brackets and a closing index.  The count of a coefficient
  vector is what \<open>atoi\<close> makes of its token, the count of a reason is read as a \<open>long\<close>,
  and the count of an \<open>rnd\<close> reason is in the range of \<open>int\<close>.
\<close>

definition canonical_long :: "string \<Rightarrow> bool" where
  "canonical_long t \<longleftrightarrow>
     (case split_long t of
        None \<Rightarrow> False
      | Some (num, rest) \<Rightarrow>
          rest = [] \<and> show_long (long_of num) = t
          \<and> long_min \<le> long_of num \<and> long_of num \<le> long_max)"

definition canonical_rational :: "string \<Rightarrow> bool" where
  "canonical_rational t \<longleftrightarrow>
     (case rational_of t of None \<Rightarrow> False | Some q \<Rightarrow> show_rational q = t)"

datatype wf_reason =
    WAsm
  | WRnd string "(string \<times> string) list"
  | WUns string string string string
  | WLin string "(string \<times> string) list" string

record wf_derivation =
  w_label :: string
  w_sense :: string
  w_rhs :: string
  w_coef :: "(string \<times> (string \<times> string) list) option"
  w_reason :: wf_reason
  w_ref :: string

definition pair_tokens :: "(string \<times> string) list \<Rightarrow> string list" where
  "pair_tokens ps = concat (map (\<lambda>(i, v). [i, v]) ps)"

definition coef_tokens :: "(string \<times> (string \<times> string) list) option \<Rightarrow> string list" where
  "coef_tokens c = (case c of None \<Rightarrow> [''OBJ''] | Some (k, ps) \<Rightarrow> k # pair_tokens ps)"

definition reason_tokens :: "wf_reason \<Rightarrow> string list" where
  "reason_tokens r =
     (case r of
        WAsm \<Rightarrow> [''{'', ''asm'', ''}'']
      | WRnd k ps \<Rightarrow> [''{'', ''rnd'', k] @ pair_tokens ps @ [''}'']
      | WUns i1 l1 i2 l2 \<Rightarrow> [''{'', ''uns'', i1, l1, i2, l2, ''}'']
      | WLin k ps closing \<Rightarrow> [''{'', ''lin'', k] @ pair_tokens ps @ [closing])"

definition derivation_tokens :: "wf_derivation \<Rightarrow> string list" where
  "derivation_tokens d =
     [w_label d, w_sense d, w_rhs d] @ coef_tokens (w_coef d) @ reason_tokens (w_reason d)
     @ [w_ref d]"

definition wf_coef :: "(string \<times> (string \<times> string) list) option \<Rightarrow> bool" where
  "wf_coef c \<longleftrightarrow>
     (case c of
        None \<Rightarrow> True
      | Some (k, ps) \<Rightarrow>
          k \<noteq> ''OBJ'' \<and> atoi k = Some (int (length ps))
          \<and> list_all (\<lambda>(i, v). canonical_long i) ps)"

definition wf_reason_tokens :: "wf_reason \<Rightarrow> bool" where
  "wf_reason_tokens r \<longleftrightarrow>
     (case r of
        WAsm \<Rightarrow> True
      | WRnd k ps \<Rightarrow>
          canonical_long k \<and> long_of k = int (length ps) \<and> int (length ps) \<le> int_max
          \<and> list_all (\<lambda>(i, v). canonical_long i \<and> canonical_rational v) ps
      | WUns i1 l1 i2 l2 \<Rightarrow>
          canonical_long i1 \<and> canonical_long l1 \<and> canonical_long i2 \<and> canonical_long l2
      | WLin k ps closing \<Rightarrow>
          canonical_long k \<and> long_of k = int (length ps)
          \<and> list_all (\<lambda>(i, v). canonical_long i) ps)"

definition wf_der :: "wf_derivation \<Rightarrow> bool" where
  "wf_der d \<longleftrightarrow> wf_coef (w_coef d) \<and> wf_reason_tokens (w_reason d) \<and> canonical_long (w_ref d)"

definition is_lin :: "wf_derivation \<Rightarrow> bool" where
  "is_lin d \<longleftrightarrow> (case w_reason d of WLin k ps closing \<Rightarrow> True | _ \<Rightarrow> False)"

text \<open>Settings and derivations for examples.\<close>

definition cfg_example :: inc_config where
  "cfg_example =
     \<lparr> draw = (\<lambda>i. 0), percentageIncomplete = 100, incomplete = True, incompleteObj = True,
       numberOfCons = 2 \<rparr>"

definition ders_example :: "wf_derivation list" where
  "ders_example =
     [\<lparr> w_label = ''a1'', w_sense = ''L'', w_rhs = ''0'',
        w_coef = Some (''1'', [(''0'', ''1'')]), w_reason = WAsm, w_ref = ''-1'' \<rparr>,
      \<lparr> w_label = ''d1'', w_sense = ''L'', w_rhs = ''1'',
        w_coef = Some (''1'', [(''0'', ''1'')]),
        w_reason = WLin ''2'' [(''0'', ''1''), (''2'', ''1/2'')] ''}'', w_ref = ''4'' \<rparr>,
      \<lparr> w_label = ''r1'', w_sense = ''L'', w_rhs = ''0'', w_coef = None,
        w_reason = WRnd ''1'' [(''0'', ''1/3'')], w_ref = ''5'' \<rparr>,
      \<lparr> w_label = ''u1'', w_sense = ''L'', w_rhs = ''0'', w_coef = None,
        w_reason = WUns ''3'' ''2'' ''4'' ''2'', w_ref = ''-1'' \<rparr>]"


section \<open>Facts about the kernel and the vectors\<close>

lemma floor_mpq_eq: "floor_mpq q = of_int \<lfloor>q\<rfloor>"
proof -
  obtain n d where nd: "quotient_of q = (n, d)" by (cases "quotient_of q")
  have "q = Fract n d" using nd by (metis Fract_quotient_of fst_conv snd_conv)
  then have "\<lfloor>q\<rfloor> = n div d" by simp
  then show ?thesis by (simp add: floor_mpq_def nd)
qed

lemma ceil_mpq_eq: "ceil_mpq q = of_int \<lceil>q\<rceil>"
proof -
  obtain n d where nd: "quotient_of q = (n, d)" by (cases "quotient_of q")
  have q: "q = Fract n d" using nd by (metis Fract_quotient_of fst_conv snd_conv)
  have "\<lceil>q\<rceil> = - \<lfloor>- q\<rfloor>" by (simp add: ceiling_def)
  also have "\<dots> = - ((- n) div d)" by (simp add: q)
  finally show ?thesis by (simp add: ceil_mpq_def nd)
qed

lemma isInteger_iff: "isInteger q \<longleftrightarrow> q \<in> \<int>"
  by (metis Ints_cases Ints_of_int floor_mpq_eq floor_of_int isInteger_def)

lemma compactify_idem: "compactify (compactify v) = compactify v"
  by (simp add: compactify_def)

lemma compactify_compact: "(\<forall>(i, a) \<in> set v. a \<noteq> 0) \<Longrightarrow> compactify v = v"
  by (induction v) (auto simp: compactify_def)

section \<open>Rounding\<close>

text \<open>
  What \<open>round\<close> checks: it is rejected exactly when an integer variable has a coefficient
  that is not an integer.  A variable that is not an integer variable is never an
  obstacle.
\<close>

lemma round_check_Rejected_iff:
  "(\<forall>(j, a) \<in> set v. isInt_at flags j \<noteq> None) \<Longrightarrow>
   round_check flags v = Inl Rejected \<longleftrightarrow>
     (\<exists>(j, a) \<in> set v. isInt_at flags j = Some True \<and> \<not> isInteger a)"
  by (induction v) (auto split: option.splits bool.splits)

lemma round_con_result:
  "round_con flags obj c = Inr c' \<Longrightarrow>
   coefficients c' = coefficients c \<and> sense c' = sense c
   \<and> rhs c' = (if sense c < 0 then floor_mpq (rhs c)
                else if sense c > 0 then ceil_mpq (rhs c) else rhs c)"
  by (auto simp: round_con_def split: option.splits sum.splits if_splits)

text \<open>
  C1.  The claim asks \<open>round\<close> to fail when a variable with a nonzero coefficient is not
  an integer variable.  On the constraint \<open>x0 \<le> 1/2\<close> over one variable that is not an
  integer variable, \<open>round\<close> succeeds and replaces the right-hand side by \<open>0\<close>.
\<close>

theorem round_accepts_continuous_variable:
  "isInt_at [False] 0 = Some False
   \<and> round_con [False] [] (new_Constraint [] ''d'' (- 1) (1 / 2) (Own [(0, 1)]) False {})
       = Inr (new_Constraint [] ''d'' (- 1) 0 (Own [(0, 1)]) False {})"
  by (simp add: round_con_def new_Constraint_def compactify_ptr_def compactify_def
        isInt_at_def floor_mpq_eq isFalsehood_of_def floor_eq_iff)


section \<open>Dominance\<close>

lemma new_Constraint_consistent:
  "compactify obj = obj \<Longrightarrow> p \<noteq> Nullptr \<Longrightarrow>
   consistent obj (new_Constraint obj lbl s r p isAsm asms)"
  by (cases p) (simp_all add: consistent_def new_Constraint_def compactify_ptr_def compactify_idem)

lemma floor_mpq_neg_iff: "floor_mpq r < 0 \<longleftrightarrow> r < 0"
  by (simp add: floor_mpq_eq floor_less_iff)

lemma ceil_mpq_pos_iff: "ceil_mpq r > 0 \<longleftrightarrow> r > 0"
  by (simp add: ceil_mpq_eq less_ceiling_iff)

lemma round_con_consistent:
  "consistent obj c \<Longrightarrow> round_con flags obj c = Inr c' \<Longrightarrow> consistent obj c'"
  by (auto simp: consistent_def round_con_def isFalsehood_of_def floor_mpq_neg_iff
        ceil_mpq_pos_iff split: option.splits sum.splits if_splits)

lemma svec_eq_Nil: "compactify v = v \<Longrightarrow> svec_eq v [] \<Longrightarrow> v = []"
  by (cases v) (auto simp: svec_eq_def svec_ne_def Let_def compactify_def split: if_splits)

text \<open>
  C6.  If \<open>A.dominates(B)\<close> and \<open>B.dominates(C)\<close> return true and the coefficient vectors
  of \<open>A\<close> and \<open>C\<close> compare equal, then \<open>A.dominates(C)\<close> returns true, for consistent
  constraint objects \<open>A\<close> and \<open>B\<close>.
\<close>

theorem dominates_transitive:
  assumes "consistent obj A" and "consistent obj B"
    and "dominates obj A B = Inr True" and "dominates obj B C = Inr True"
    and "case (deref obj (coefficients A), deref obj (coefficients C)) of
           (Some v, Some w) \<Rightarrow> svec_eq v w | _ \<Rightarrow> False"
  shows "dominates obj A C = Inr True"
proof (cases "falsehood A")
  case True
  then show ?thesis by (simp add: dominates_def)
next
  case notA: False
  obtain va where va: "deref obj (coefficients A) = Some va" "compactify va = va"
      "falsehood A = isFalsehood_of va (sense A) (rhs A)"
    using assms(1) by (auto simp: consistent_def split: option.splits)
  obtain vb where vb: "deref obj (coefficients B) = Some vb" "compactify vb = vb"
      "falsehood B = isFalsehood_of vb (sense B) (rhs B)"
    using assms(2) by (auto simp: consistent_def split: option.splits)
  obtain vc where vc: "deref obj (coefficients C) = Some vc" "svec_eq va vc"
    using assms(5) va by (auto split: option.splits)
  have AB: "svec_eq va vb" and sAB:
      "(sense B > 0 \<and> sense A \<ge> 0 \<and> rhs A \<ge> rhs B)
       \<or> (sense B < 0 \<and> sense A \<le> 0 \<and> rhs A \<le> rhs B)
       \<or> (sense B = 0 \<and> sense A = 0 \<and> rhs A = rhs B)"
    using assms(3) notA va vb by (auto simp: dominates_def)
  have notB: "\<not> falsehood B"
  proof
    assume fB: "falsehood B"
    then have "vb = []" using vb by (simp add: isFalsehood_of_def)
    then have "va = []" using AB va svec_eq_Nil by blast
    then have "falsehood A" using fB sAB va vb by (auto simp: isFalsehood_of_def)
    then show False using notA by simp
  qed
  have sBC:
      "(sense C > 0 \<and> sense B \<ge> 0 \<and> rhs B \<ge> rhs C)
       \<or> (sense C < 0 \<and> sense B \<le> 0 \<and> rhs B \<le> rhs C)
       \<or> (sense C = 0 \<and> sense B = 0 \<and> rhs B = rhs C)"
    using assms(4) notB vb vc by (auto simp: dominates_def)
  have "(sense C > 0 \<and> sense A \<ge> 0 \<and> rhs A \<ge> rhs C)
       \<or> (sense C < 0 \<and> sense A \<le> 0 \<and> rhs A \<le> rhs C)
       \<or> (sense C = 0 \<and> sense A = 0 \<and> rhs A = rhs C)"
    using sAB sBC by auto
  then show ?thesis using notA va vc by (simp add: dominates_def)
qed

text \<open>
  The theorem at the constraints \<open>x0 \<ge> 3\<close>, \<open>x0 \<ge> 2\<close> and \<open>x0 \<ge> 1\<close>.
\<close>

theorem dominates_transitive_witness:
  "consistent [] (new_Constraint [] ''a'' 1 3 (Own [(0, 1)]) False {})
   \<and> consistent [] (new_Constraint [] ''b'' 1 2 (Own [(0, 1)]) False {})
   \<and> dominates [] (new_Constraint [] ''a'' 1 3 (Own [(0, 1)]) False {})
        (new_Constraint [] ''b'' 1 2 (Own [(0, 1)]) False {}) = Inr True
   \<and> dominates [] (new_Constraint [] ''b'' 1 2 (Own [(0, 1)]) False {})
        (new_Constraint [] ''c'' 1 1 (Own [(0, 1)]) False {}) = Inr True
   \<and> dominates [] (new_Constraint [] ''a'' 1 3 (Own [(0, 1)]) False {})
        (new_Constraint [] ''c'' 1 1 (Own [(0, 1)]) False {}) = Inr True"
proof -
  have cA: "consistent [] (new_Constraint [] ''a'' 1 3 (Own [(0, 1)]) False {})"
    and cB: "consistent [] (new_Constraint [] ''b'' 1 2 (Own [(0, 1)]) False {})"
    by (simp_all add: consistent_def new_Constraint_def compactify_ptr_def compactify_def
          isFalsehood_of_def)
  have dAB: "dominates [] (new_Constraint [] ''a'' 1 3 (Own [(0, 1)]) False {})
        (new_Constraint [] ''b'' 1 2 (Own [(0, 1)]) False {}) = Inr True"
    and dBC: "dominates [] (new_Constraint [] ''b'' 1 2 (Own [(0, 1)]) False {})
        (new_Constraint [] ''c'' 1 1 (Own [(0, 1)]) False {}) = Inr True"
    by (simp_all add: dominates_def new_Constraint_def compactify_ptr_def compactify_def
          isFalsehood_of_def svec_eq_def svec_ne_def find_entry_def)
  have eqAC: "case (deref [] (coefficients (new_Constraint [] ''a'' 1 3 (Own [(0, 1)]) False {})),
                    deref [] (coefficients (new_Constraint [] ''c'' 1 1 (Own [(0, 1)]) False {}))) of
                (Some v, Some w) \<Rightarrow> svec_eq v w | _ \<Rightarrow> False"
    by (simp add: new_Constraint_def compactify_ptr_def compactify_def svec_eq_def svec_ne_def
          find_entry_def)
  show ?thesis
    using dominates_transitive [OF cA cB dAB dBC eqAC] cA cB dAB dBC by simp
qed

section \<open>The relation to prove\<close>

text \<open>
  C10.  A range whose bounds are both finite, the lower above the upper, is rejected by
  \<open>processRTP\<close>; a run on a certificate with such a range fails in a section before
  \<open>SOL\<close>, and when it reaches \<open>RTP\<close> it fails there with a reported error.
\<close>

theorem inverted_range_rejected:
  assumes "u < l"
  shows "processRTP st (RtpRange (Number l) (Number u)) = Inl Rejected
         \<and> (c_rtp cert = RtpRange (Number l) (Number u) \<longrightarrow>
              (\<exists>sec e. main_vipr nd cert = Inl (sec, e) \<and> sec \<noteq> SecSOL \<and> sec \<noteq> SecDER
                       \<and> (sec = SecRTP \<longrightarrow> e = Rejected)))"
proof -
  have rtp: "processRTP s (RtpRange (Number l) (Number u)) = Inl Rejected" for s
    using assms by (simp add: processRTP_def Let_def)
  show ?thesis
    by (auto simp: rtp main_vipr_def in_section_def split: sum.splits)
qed

theorem inverted_range_rejected_witness:
  "(0::rat) < 10
   \<and> processRTP (initial_state True) (RtpRange (Number 10) (Number 0)) = Inl Rejected
   \<and> main_vipr True cert_inverted_range = Inl (SecRTP, Rejected)"
proof -
  have h: "(0::rat) < 10" by simp
  have m: "main_vipr True cert_inverted_range = Inl (SecRTP, Rejected)" by code_simp
  show ?thesis
    using inverted_range_rejected [OF h, of "initial_state True" cert_inverted_range True] m
    by simp
qed


section \<open>Unsplit steps\<close>

text \<open>
  C4.  The constraint appended by an accepted step \<open>uns c1 a1 c2 a2\<close> has the assumption
  list of constraint \<open>c1\<close> without \<open>a1\<close>, united with that of constraint \<open>c2\<close>
  without \<open>a2\<close>.
\<close>

theorem unsplit_scope:
  assumes "dl_reason d = UNS c1 a1 c2 a2" and "derive st d = Inr (toDer, st')"
  shows "\<exists>k1 k2. con_at (constraint st) c1 = Some k1 \<and> con_at (constraint st) c2 = Some k2
           \<and> assumptionList toDer
               = (assumptionList k1 - {a1}) \<union> (assumptionList k2 - {a2})"
proof -
  obtain s coef obj eqObj where rc:
    "readConstraint (numberOfVariables st) (objectiveCoefficients st) (Own [])
        (cl_sense d) (cl_coef d) = Inr (s, coef, obj, eqObj)"
    using assms(2) by (auto simp: derive_def split: sum.splits)
  define t where "t = (new_Constraint obj (cl_label d) s (cl_rhs d) coef (dl_reason d = ASM) {})
                        \<lparr> coefsEqualObj := eqObj \<rparr>"
  obtain asms where cu:
    "canUnsplit (st \<lparr> objectiveCoefficients := obj \<rparr>) t c1 a1 c2 a2 = Inr asms"
    and scope: "assumptionList toDer = asms"
    using assms rc
    by (auto simp: derive_def derive_reason_def t_def split: sum.splits if_splits)
  from cu obtain k1 k2 where
    "con_at (constraint st) c1 = Some k1" "con_at (constraint st) c2 = Some k2"
    "asms = (assumptionList k1 - {a1}) \<union> (assumptionList k2 - {a2})"
    by (auto simp: canUnsplit_def split: option.splits sum.splits if_splits)
  then show ?thesis using scope by blast
qed

theorem unsplit_scope_witness:
  "dl_reason step_unsplit = UNS 3 1 4 2
   \<and> (\<exists>toDer st'. derive st_unsplit step_unsplit = Inr (toDer, st')
         \<and> assumptionList toDer = {7, 8})"
proof -
  have h: "dl_reason step_unsplit = UNS 3 1 4 2" by (simp add: step_unsplit_def)
  obtain toDer st' where d: "derive st_unsplit step_unsplit = Inr (toDer, st')"
    by (cases "derive st_unsplit step_unsplit";
        simp add: derive_def derive_reason_def canUnsplit_def readConstraint_def
          sense_of_char_def readConstraintCoefficients_def new_Constraint_def
          compactify_ptr_def compactify_def step_unsplit_def st_unsplit_def
          initial_state_def con_at_def dominates_def isFalsehood_of_def svec_eq_def
          svec_ne_def find_entry_def isInt_at_def isInteger_iff)
  from unsplit_scope [OF h d]
  have "assumptionList toDer = {7, 8}"
    by (auto simp: st_unsplit_def initial_state_def con_at_def new_Constraint_def)
  with h d show ?thesis by blast
qed

section \<open>The multiplier sign rule\<close>




lemma print_con_trash: "print_con nd nvar obj cons (trash c) = Inl Undefined"
  by (simp add: print_con_def trash_def)

lemma list_ex_compactify:
  "list_ex (\<lambda>(index, a). a \<noteq> 0 \<and> P index) (compactify v)
   = list_ex (\<lambda>(index, a). a \<noteq> 0 \<and> P index) v"
  by (induction v) (auto simp: compactify_def)







text \<open>
  A build without \<open>NDEBUG\<close> that reads a term citing a trashed constraint: the reading
  is not defined, the debug output following the null coefficient pointer.
\<close>

lemma trashed_constraint_debug_print:
  "\<not> reads_defined (st_unsplit \<lparr> ndebug := False, constraint := [trash c] \<rparr>) [(0, 1)]
   \<and> readMultipliers (st_unsplit \<lparr> ndebug := False, constraint := [trash c] \<rparr>) [(0, 1)]
       = Inl Undefined
   \<and> readMultipliers (st_unsplit \<lparr> constraint := [trash c] \<rparr>) [(0, 1)]
       = Inr (sense c, [(0, 1)])"
  by (simp add: reads_defined_def printable_def readMultipliers_def con_at_def print_con_trash
        st_unsplit_def initial_state_def sgn_mpq_def)
    (simp add: trash_def)


section \<open>Indices cited by a derivation\<close>




text \<open>
  Reading the constraint to derive leaves the objective as it is, but for zero entries,
  which make no difference to what can be printed.
\<close>

lemma readConstraint_objective:
  "readConstraint n obj (Own v) c spec = Inr (s, p, obj', eqObj) \<Longrightarrow>
   obj' = obj \<or> obj' = compactify obj"
  by (auto simp: readConstraint_def readConstraintCoefficients_def
        split: sum.splits coefspec.splits if_splits)





text \<open>
  Where the reading is not defined nothing is promised: in a build with \<open>NDEBUG\<close> the
  index 7 is used unchecked before the negative index is reached.
\<close>

lemma unchecked_index_before_negative:
  "\<not> reads_defined st_unsplit [(7, 1), (- 1, 1)]
   \<and> derive st_unsplit (step_negative_index \<lparr> dl_reason := LIN [(7, 1), (- 1, 1)] \<rparr>)
       = Inl Undefined"
  by (simp add: reads_defined_def derive_def derive_reason_def derive_lin_def readLinComb_def
        readMultipliers_def readConstraint_def readConstraintCoefficients_def
        sense_of_char_def step_negative_index_def st_unsplit_def initial_state_def
        con_at_def compactify_def)


section \<open>Facts about the states the verifier builds\<close>

lemma main_vipr_before_DER:
  "main_vipr nd cert
   = (case before_DER nd cert of
        Inl e \<Rightarrow> Inl e
      | Inr st \<Rightarrow> in_section SecDER (processDER st (c_derivations cert)))"
  by (simp add: main_vipr_def before_DER_def split: sum.splits)

lemma entries_in_range_Nil: "entries_in_range n []"
  by (simp add: entries_in_range_def)

lemma entries_in_range_set_entry:
  "entries_in_range n v \<Longrightarrow> 0 \<le> i \<Longrightarrow> i < n \<Longrightarrow> entries_in_range n (set_entry i a v)"
  by (induction v) (auto simp: entries_in_range_def split: if_splits)

lemma entries_in_range_compactify: "entries_in_range n (compactify v) = entries_in_range n v"
  by (simp add: entries_in_range_def list_ex_compactify)

lemma fill_entries_in_range:
  "fill_entries n es v = Inr w \<Longrightarrow> entries_in_range n v \<Longrightarrow> entries_in_range n w"
  by (induction es arbitrary: v)
     (auto simp: entries_in_range_set_entry split: if_splits)

lemma readConstraintCoefficients_built:
  assumes "readConstraintCoefficients n obj p spec = Inr (p', obj', eqObj)"
    and "entries_in_range n obj"
  shows "entries_in_range n obj' \<and> p' \<noteq> Nullptr
         \<and> (case p' of Own v \<Rightarrow> entries_in_range n v | _ \<Rightarrow> True)"
proof (cases spec)
  case TokOBJ
  then show ?thesis
    using assms
    by (auto simp: readConstraintCoefficients_def entries_in_range_compactify
          entries_in_range_Nil split: if_splits)
next
  case (Entries es)
  from assms(1) obtain v where fill: "fill_entries n es [] = Inr v"
    by (auto simp: readConstraintCoefficients_def Entries split: sum.splits if_splits)
  have v: "entries_in_range n (compactify v)"
    using fill_entries_in_range [OF fill entries_in_range_Nil]
    by (simp add: entries_in_range_compactify)
  show ?thesis
    using assms v
    by (auto simp: readConstraintCoefficients_def Entries fill entries_in_range_Nil
          split: if_splits)
qed

lemma readConstraint_built:
  assumes "readConstraint n obj p ch spec = Inr (s, p', obj', eqObj)"
    and "entries_in_range n obj"
  shows "(s = - 1 \<or> s = 0 \<or> s = 1) \<and> entries_in_range n obj' \<and> p' \<noteq> Nullptr
         \<and> (case p' of Own v \<Rightarrow> entries_in_range n v | _ \<Rightarrow> True)"
proof -
  from assms(1) have s: "s = - 1 \<or> s = 0 \<or> s = 1"
    and rc: "readConstraintCoefficients n obj p spec = Inr (p', obj', eqObj)"
    by (auto simp: readConstraint_def sense_of_char_def split: sum.splits if_splits)
  show ?thesis using s readConstraintCoefficients_built [OF rc assms(2)] by simp
qed

lemma new_Constraint_built:
  assumes "s = - 1 \<or> s = 0 \<or> s = 1" and "asms \<subseteq> {0 ..< int len}" and "p \<noteq> Nullptr"
    and "case p of Own v \<Rightarrow> entries_in_range n v | _ \<Rightarrow> True"
  shows "built_con n len (new_Constraint obj lbl s r p isAsm asms)"
  using assms
  by (cases p)
     (auto simp: built_con_def new_Constraint_def compactify_ptr_def
        entries_in_range_compactify)

lemma built_con_mono: "built_con n len c \<Longrightarrow> len \<le> len' \<Longrightarrow> built_con n len' c"
  by (auto simp: built_con_def)

lemma built_con_trash: "built_con n len c \<Longrightarrow> built_con n len (trash c)"
  by (simp add: built_con_def trash_def)

lemma built_con_update:
  "built_con n len c \<Longrightarrow> asms \<subseteq> {0 ..< int len} \<Longrightarrow>
   built_con n len (c \<lparr> coefsEqualObj := e, assumptionList := asms, refIdx := k \<rparr>)"
  by (simp add: built_con_def)

text \<open>The sections before \<open>DER\<close> build such a state.\<close>

lemma processOBJ_built: "processOBJ st objectiveSense spec = Inr st' \<Longrightarrow> built st \<Longrightarrow> built st'"
  by (auto simp: processOBJ_def built_def dest: readConstraintCoefficients_built
        split: if_splits sum.splits prod.splits)

lemma processCON_loop_built: "processCON_loop st ls = Inr st' \<Longrightarrow> built st \<Longrightarrow> built st'"
proof (induction ls arbitrary: st)
  case Nil
  then show ?case by simp
next
  case (Cons l ls)
  from Cons.prems(1) obtain s coef obj dummy where
    rc: "readConstraint (numberOfVariables st) (objectiveCoefficients st) (Own [])
           (cl_sense l) (cl_coef l) = Inr (s, coef, obj, dummy)"
    and loop: "processCON_loop
                 (st \<lparr> objectiveCoefficients := obj,
                       constraint := constraint st @
                         [new_Constraint obj (cl_label l) s (cl_rhs l) coef False {}] \<rparr>) ls
               = Inr st'"
    by (auto split: sum.splits)
  have obj: "entries_in_range (numberOfVariables st) (objectiveCoefficients st)"
    and cons: "list_all (built_con (numberOfVariables st) (length (constraint st)))
                 (constraint st)"
    using Cons.prems(2) by (simp_all add: built_def)
  note r = readConstraint_built [OF rc obj]
  have new: "built_con (numberOfVariables st) (Suc (length (constraint st)))
               (new_Constraint obj (cl_label l) s (cl_rhs l) coef False {})"
    using r by (intro new_Constraint_built) auto
  have old: "list_all (built_con (numberOfVariables st) (Suc (length (constraint st))))
               (constraint st)"
    using cons by (auto simp: list_all_iff intro: built_con_mono)
  have "built (st \<lparr> objectiveCoefficients := obj,
                    constraint := constraint st @
                      [new_Constraint obj (cl_label l) s (cl_rhs l) coef False {}] \<rparr>)"
    using r new old by (simp add: built_def)
  then show ?case by (rule Cons.IH [OF loop])
qed

lemma processRTP_built: "processRTP st rtp = Inr st' \<Longrightarrow> built st \<Longrightarrow> built st'"
  by (auto simp: processRTP_def built_def Let_def
        split: rtp_spec.splits if_splits bound_token.splits)

lemma processSOL_loop_built:
  "processSOL_loop st p i sols = Inr st' \<Longrightarrow> built st \<Longrightarrow> p \<noteq> Nullptr \<Longrightarrow> built st'"
proof (induction sols arbitrary: st p i)
  case Nil
  then show ?case by simp
next
  case (Cons sol sols)
  obtain l spec where sol: "sol = (l, spec)" by (cases sol)
  from Cons.prems(1) obtain p1 obj dummy best where
    rc: "readConstraintCoefficients (numberOfVariables st) (objectiveCoefficients st) p spec
         = Inr (p1, obj, dummy)"
    and loop: "processSOL_loop (st \<lparr> objectiveCoefficients := obj,
                                     bestObjectiveValue := best \<rparr>) p1 (Suc i) sols = Inr st'"
    unfolding sol by (auto split: sum.splits option.splits)
  have obj: "entries_in_range (numberOfVariables st) (objectiveCoefficients st)"
    using Cons.prems(2) by (simp add: built_def)
  note r = readConstraintCoefficients_built [OF rc obj]
  have "built (st \<lparr> objectiveCoefficients := obj, bestObjectiveValue := best \<rparr>)"
    using Cons.prems(2) r by (simp add: built_def)
  then show ?case using Cons.IH [OF loop] r by simp
qed

lemma processSOL_built: "processSOL st sols = Inr st' \<Longrightarrow> built st \<Longrightarrow> built st'"
proof -
  assume a: "processSOL st sols = Inr st'" and b: "built st"
  from a obtain st1 where
    loop: "processSOL_loop (st \<lparr> numberOfSolutions := int (length sols) \<rparr>) (Own []) 0 sols
           = Inr st1"
    and st': "st' = st1"
    by (auto simp: processSOL_def split: sum.splits if_splits)
  have "built (st \<lparr> numberOfSolutions := int (length sols) \<rparr>)"
    using b by (simp add: built_def)
  from processSOL_loop_built [OF loop this] st' show "built st'" by simp
qed

lemma before_DER_built:
  assumes "before_DER nd cert = Inr st"
  shows "built st"
proof -
  from assms obtain s1 s2 s3 s4 s5 where
    var: "processVAR (initial_state nd) (c_variables cert) = Inr s1"
    and int: "processINT s1 (c_integers cert) = Inr s2"
    and obj: "processOBJ s2 (c_objsense cert) (c_obj cert) = Inr s3"
    and con: "processCON s3 (c_constraints cert) = Inr s4"
    and rtp: "processRTP s4 (c_rtp cert) = Inr s5"
    and sol: "processSOL s5 (c_solutions cert) = Inr st"
    by (auto simp: before_DER_def in_section_def split: sum.splits)
  have "built s1"
    using var by (auto simp: processVAR_def initial_state_def built_def entries_in_range_Nil)
  then have "built s2"
    using int by (auto simp: processINT_def built_def split: sum.splits)
  then have "built s3" by (rule processOBJ_built [OF obj])
  then have "built (s3 \<lparr> numberOfConstraints := int (length (c_constraints cert)) \<rparr>)"
    by (simp add: built_def)
  moreover have "processCON_loop
                   (s3 \<lparr> numberOfConstraints := int (length (c_constraints cert)) \<rparr>)
                   (c_constraints cert) = Inr s4"
    using con by (auto simp: processCON_def split: if_splits)
  ultimately have "built s4" by (rule processCON_loop_built [rotated])
  then have "built s5" by (rule processRTP_built [OF rtp])
  then show ?thesis by (rule processSOL_built [OF sol])
qed

text \<open>A derivation step keeps the state such a state.\<close>

lemma con_at_mem: "con_at cons i = Some c \<Longrightarrow> c \<in> set cons"
  by (auto simp: con_at_def split: if_splits)

lemma readLinComb_loop_built:
  assumes "readLinComb_loop obj cur mult (cons, r, coef, asms, ok)
           = Inr (cons', r', coef', asms', ok')"
    and "list_all (built_con n len) cons" and "asms \<subseteq> {0 ..< int len}"
  shows "list_all (built_con n len) cons' \<and> length cons' = length cons
         \<and> asms' \<subseteq> {0 ..< int len}"
  using assms
proof (induction mult arbitrary: cons r coef asms ok)
  case Nil
  then show ?case by simp
next
  case (Cons t mult)
  obtain index a where t: "t = (index, a)" by (cases t)
  from Cons.prems(1) obtain con where at: "con_at cons index = Some con"
    unfolding t by (auto split: option.splits)
  have con: "built_con n len con"
    using con_at_mem [OF at] Cons.prems(2) by (auto simp: list_all_iff)
  have asm: "asms \<union> assumptionList con \<subseteq> {0 ..< int len}"
    using con Cons.prems(3) by (auto simp: built_con_def)
  have upd: "list_all (built_con n len) (list_update cons (nat index) (trash con))"
    using Cons.prems(2) built_con_trash [OF con]
    by (auto simp: list_all_iff dest!: set_update_subset_insert [THEN subsetD])
  show ?case
  proof (cases "trashed con")
    case True
    then have "readLinComb_loop obj cur mult (cons, r, coef, asms \<union> assumptionList con, False)
               = Inr (cons', r', coef', asms', ok')"
      using Cons.prems(1) at unfolding t by simp
    from Cons.IH [OF this Cons.prems(2) asm] show ?thesis .
  next
    case False
    then obtain c where "deref obj (coefficients con) = Some c"
      and loop: "readLinComb_loop obj cur mult
                   (if refIdx con \<le> cur \<and> refIdx con \<ge> 0
                    then list_update cons (nat index) (trash con) else cons,
                    r + a * rhs con, add_multiple a c coef,
                    asms \<union> assumptionList con, ok)
                 = Inr (cons', r', coef', asms', ok')"
      using Cons.prems(1) at unfolding t by (auto split: option.splits)
    show ?thesis
    proof (cases "refIdx con \<le> cur \<and> refIdx con \<ge> 0")
      case True
      with loop have "readLinComb_loop obj cur mult
                        (list_update cons (nat index) (trash con), r + a * rhs con,
                         add_multiple a c coef, asms \<union> assumptionList con, ok)
                      = Inr (cons', r', coef', asms', ok')"
        by simp
      from Cons.IH [OF this upd asm] show ?thesis by simp
    next
      case False
      with loop have "readLinComb_loop obj cur mult
                        (cons, r + a * rhs con, add_multiple a c coef,
                         asms \<union> assumptionList con, ok)
                      = Inr (cons', r', coef', asms', ok')"
        by simp
      from Cons.IH [OF this Cons.prems(2) asm] show ?thesis .
    qed
  qed
qed

lemma derive_reason_built:
  assumes "derive_reason st toDer d = Inr (asms, cons)"
    and "list_all (built_con n (length (constraint st))) (constraint st)"
  shows "list_all (built_con n (length (constraint st))) cons
         \<and> length cons = length (constraint st)
         \<and> asms \<subseteq> {0 ..< int (Suc (length (constraint st)))}"
proof (cases "dl_reason d")
  case ASM
  then show ?thesis using assms by (auto simp: derive_reason_def split: if_splits)
next
  case (LIN ts)
  from assms(1) obtain s r coef where
    "readLinComb st ts (int (length (constraint st))) = Inr (s, r, coef, asms, cons)"
    by (auto simp: derive_reason_def LIN derive_lin_def split: sum.splits if_splits)
  then obtain mult ok where
    "readLinComb_loop (objectiveCoefficients st) (int (length (constraint st))) mult
       (constraint st, 0, [], {}, True) = Inr (cons, r, coef, asms, ok)"
    by (auto simp: readLinComb_def split: sum.splits if_splits)
  from readLinComb_loop_built [OF this assms(2)] show ?thesis by auto
next
  case (RND ts)
  from assms(1) obtain s r coef where
    "readLinComb st ts (int (length (constraint st))) = Inr (s, r, coef, asms, cons)"
    by (auto simp: derive_reason_def RND derive_lin_def split: sum.splits if_splits)
  then obtain mult ok where
    "readLinComb_loop (objectiveCoefficients st) (int (length (constraint st))) mult
       (constraint st, 0, [], {}, True) = Inr (cons, r, coef, asms, ok)"
    by (auto simp: readLinComb_def split: sum.splits if_splits)
  from readLinComb_loop_built [OF this assms(2)] show ?thesis by auto
next
  case (UNS c1 a1 c2 a2)
  from assms(1) have cons: "cons = constraint st"
    and cu: "canUnsplit st toDer c1 a1 c2 a2 = Inr asms"
    by (auto simp: derive_reason_def UNS split: sum.splits if_splits)
  from cu obtain k1 k2 where
    k: "con_at (constraint st) c1 = Some k1" "con_at (constraint st) c2 = Some k2"
    and asms: "asms = (assumptionList k1 - {a1}) \<union> (assumptionList k2 - {a2})"
    by (auto simp: canUnsplit_def split: option.splits sum.splits if_splits)
  have "built_con n (length (constraint st)) k1" "built_con n (length (constraint st)) k2"
    using k [THEN con_at_mem] assms(2) by (auto simp: list_all_iff)
  then have "assumptionList k1 \<subseteq> {0 ..< int (length (constraint st))}"
    and "assumptionList k2 \<subseteq> {0 ..< int (length (constraint st))}"
    by (simp_all add: built_con_def)
  then have "asms \<subseteq> {0 ..< int (Suc (length (constraint st)))}"
    unfolding asms by auto
  then show ?thesis using cons assms(2) by simp
next
  case SOL
  then show ?thesis using assms by (auto simp: derive_reason_def split: if_splits)
next
  case (UNKNOWN k)
  then show ?thesis using assms by (simp add: derive_reason_def)
qed

lemma derive_built:
  assumes "derive st d = Inr (toDer, st')" and "built st"
  shows "built (st' \<lparr> constraint := constraint st' @ [toDer] \<rparr>)
         \<and> built (st' \<lparr> constraint := constraint st' @ [trash toDer] \<rparr>)"
proof -
  let ?n = "numberOfVariables st"
  from assms(1) obtain s coef obj eqObj asms cons where
    rc: "readConstraint ?n (objectiveCoefficients st) (Own []) (cl_sense d) (cl_coef d)
         = Inr (s, coef, obj, eqObj)"
    and dr: "derive_reason (st \<lparr> objectiveCoefficients := obj \<rparr>)
               ((new_Constraint obj (cl_label d) s (cl_rhs d) coef (dl_reason d = ASM) {})
                  \<lparr> coefsEqualObj := eqObj \<rparr>) d = Inr (asms, cons)"
    and toDer: "toDer = (new_Constraint obj (cl_label d) s (cl_rhs d) coef (dl_reason d = ASM) {})
                          \<lparr> coefsEqualObj := eqObj, assumptionList := asms,
                            refIdx := dl_refIdx d \<rparr>"
    and st': "st' = st \<lparr> objectiveCoefficients := obj, constraint := cons \<rparr>"
    by (auto simp: derive_def split: sum.splits if_splits)
  have obj: "entries_in_range ?n (objectiveCoefficients st)"
    and old: "list_all (built_con ?n (length (constraint st))) (constraint st)"
    using assms(2) by (simp_all add: built_def)
  note r = readConstraint_built [OF rc obj]
  have d: "list_all (built_con ?n (length (constraint st))) cons"
      "length cons = length (constraint st)"
      "asms \<subseteq> {0 ..< int (Suc (length (constraint st)))}"
    using derive_reason_built [OF dr, of ?n] old by simp_all
  let ?len = "Suc (length cons)"
  have new: "built_con ?n ?len toDer"
    unfolding toDer using r d(2,3)
    by (intro built_con_update new_Constraint_built) auto
  have cons: "list_all (built_con ?n ?len) cons"
    using d(1,2) by (auto simp: list_all_iff intro: built_con_mono)
  show ?thesis
    using r new cons built_con_trash [OF new] by (simp add: built_def st')
qed

text \<open>
  In such a state the debug output can print exactly the constraints that are not
  trashed, and a reading is defined when it cites no trashed constraint, in a build
  without \<open>NDEBUG\<close>, and no index beyond the vector, in a build with it.
\<close>

lemma printable_built:
  assumes "built st" and "c \<in> set (constraint st)"
  shows "printable st c \<longleftrightarrow> \<not> trashed c"
proof -
  have c: "built_con (numberOfVariables st) (length (constraint st)) c"
    and obj: "entries_in_range (numberOfVariables st) (objectiveCoefficients st)"
    using assms by (auto simp: built_def list_all_iff)
  show ?thesis
    using c obj
    by (cases "coefficients c")
       (auto simp: printable_def print_con_def built_con_def entries_in_range_def)
qed

lemma reads_defined_built:
  assumes "built st"
  shows "reads_defined st ts \<longleftrightarrow>
           list_all (\<lambda>(i, a). a = 0 \<or> i < 0
                       \<or> (case con_at (constraint st) i of
                             None \<Rightarrow> \<not> ndebug st
                           | Some c \<Rightarrow> ndebug st \<or> \<not> trashed c)) ts"
proof -
  have "(case con_at (constraint st) i of None \<Rightarrow> \<not> ndebug st
         | Some c \<Rightarrow> ndebug st \<or> printable st c)
        = (case con_at (constraint st) i of None \<Rightarrow> \<not> ndebug st
           | Some c \<Rightarrow> ndebug st \<or> \<not> trashed c)" for i
    using printable_built [OF assms]
    by (auto split: option.splits dest: con_at_mem)
  then show ?thesis by (simp add: reads_defined_def)
qed


text \<open>
  A run that ends without a proof of infeasibility: with no derivation for the
  problem of \<open>cert_zero_multiplier\<close> the report of the failure prints the relation to
  prove, which \<open>infeas\<close> leaves with a null coefficient pointer.
\<close>

lemma failed_infeasibility_report:
  "c_rtp cert_zero_multiplier = RtpInfeas
   \<and> main_vipr True (cert_zero_multiplier \<lparr> c_derivations := [] \<rparr>) = Inl (SecDER, Undefined)"
  by code_simp

section \<open>Solutions\<close>

lemma integrality_check_ok:
  "integrality_check flags x = Inr u \<Longrightarrow>
   \<forall>(j, a) \<in> set x. isInt_at flags j = Some True \<longrightarrow> isInteger a"
  by (induction x) (auto split: option.splits if_splits)

lemma satisfies_all_ok:
  "satisfies_all obj cons x = Inr u \<Longrightarrow> \<forall>con \<in> set cons. satisfies obj con x = Inr True"
  by (induction cons) (auto split: sum.splits if_splits)

text \<open>
  When no solution is given by the token \<open>OBJ\<close>, \<open>processSOL\<close> succeeds only if every
  solution gives integer values to the integer variables and satisfies each of the
  constraints \<open>0\<close> to \<open>numberOfConstraints - 1\<close>.
\<close>

lemma processSOL_loop_explicit:
  assumes "processSOL_loop st (Own b) i sols = Inr st'"
    and "\<forall>(l, spec) \<in> set sols. spec \<noteq> TokOBJ"
  shows "\<forall>(l, spec) \<in> set sols.
           \<exists>es v. spec = Entries es \<and> fill_entries (numberOfVariables st) es [] = Inr v
             \<and> (\<forall>(j, a) \<in> set (compactify v).
                   isInt_at (isInt st) j = Some True \<longrightarrow> isInteger a)
             \<and> (\<forall>con \<in> set (take (nat (numberOfConstraints st)) (constraint st)).
                   satisfies (objectiveCoefficients st) con (compactify v) = Inr True)"
  using assms
proof (induction sols arbitrary: st b i)
  case Nil
  then show ?case by simp
next
  case (Cons sol sols)
  obtain l spec where sol: "sol = (l, spec)" by (cases sol)
  obtain es where spec: "spec = Entries es"
    using Cons.prems(2) sol by (cases spec) auto
  have rest: "\<forall>(l, spec) \<in> set sols. spec \<noteq> TokOBJ"
    using Cons.prems(2) by simp
  from Cons.prems(1) obtain v where
    fill: "fill_entries (numberOfVariables st) es [] = Inr v"
    unfolding sol spec
    by (auto simp: readConstraintCoefficients_def split: sum.splits)
  from Cons.prems(1) obtain u1 u2 best where
    ic: "integrality_check (isInt st) (compactify v) = Inr u1"
    and sa: "satisfies_all (objectiveCoefficients st)
               (take (nat (numberOfConstraints st)) (constraint st)) (compactify v) = Inr u2"
    and loop: "processSOL_loop (st \<lparr> objectiveCoefficients := objectiveCoefficients st,
                                     bestObjectiveValue := best \<rparr>)
                 (Own (compactify v)) (Suc i) sols = Inr st'"
    unfolding sol spec
    by (auto simp: readConstraintCoefficients_def fill split: sum.splits)
  have "\<forall>(l, spec) \<in> set sols.
           \<exists>es v. spec = Entries es \<and> fill_entries (numberOfVariables st) es [] = Inr v
             \<and> (\<forall>(j, a) \<in> set (compactify v).
                   isInt_at (isInt st) j = Some True \<longrightarrow> isInteger a)
             \<and> (\<forall>con \<in> set (take (nat (numberOfConstraints st)) (constraint st)).
                   satisfies (objectiveCoefficients st) con (compactify v) = Inr True)"
    using Cons.IH [OF loop rest] by simp
  moreover have "\<forall>(j, a) \<in> set (compactify v).
                   isInt_at (isInt st) j = Some True \<longrightarrow> isInteger a"
    by (rule integrality_check_ok [OF ic])
  moreover have "\<forall>con \<in> set (take (nat (numberOfConstraints st)) (constraint st)).
                   satisfies (objectiveCoefficients st) con (compactify v) = Inr True"
    by (rule satisfies_all_ok [OF sa])
  ultimately show ?case
    unfolding sol spec using fill by simp
qed

text \<open>
  C9.  The claim fails on a certificate whose first solution is the token \<open>OBJ\<close>: the
  pointer through which the solutions are read then points to the objective vector,
  reading the second solution \<open>x0 = -2\<close> overwrites that vector, and the constraint
  \<open>2 x0 \<ge> 1\<close>, which shares it, is checked as \<open>-2 x0 \<ge> 1\<close>.  The run ends with \<open>OKAY\<close>;
  without the first solution the same second solution is rejected in \<open>SOL\<close>.
\<close>

theorem aliased_solution_accepted:
  "c_solutions cert_solution_alias = [(''s1'', TokOBJ), (''s2'', Entries [(0, - 2)])]
   \<and> main_vipr True cert_solution_alias = Inr ()
   \<and> main_vipr True (cert_solution_alias \<lparr> c_solutions := [(''s2'', Entries [(0, - 2)])] \<rparr>)
       = Inl (SecSOL, Rejected)"
  by code_simp

section \<open>Weak completion\<close>

lemma find_entry_set_entry:
  "find_entry (set_entry i a v) j = (if j = i then Some a else find_entry v j)"
  by (induction v) (auto simp: find_entry_def)

lemma row_at_set_entry:
  "row_at (set_entry i a v) j = (if j = i then a else row_at v j)"
  by (simp add: row_at_def find_entry_set_entry)

lemma row_at_add_entry_zero: "row_at (add_entry i 0 v) j = row_at v j"
  by (auto simp: add_entry_def row_at_set_entry) (simp add: row_at_def)

lemma row_at_entry:
  "(\<forall>(i, a) \<in> set v. a = f i) \<Longrightarrow> idx \<in> fst ` set v \<Longrightarrow> row_at v idx = f idx"
  by (induction v) (auto simp: row_at_def find_entry_def)

text \<open>A sense other than zero goes through the completer's \<open>readMultipliers\<close> unchanged.\<close>

lemma readMultipliers_comp_sense:
  "s \<noteq> 0 \<Longrightarrow> readMultipliers_comp cons ts s mult = Inr (s', m) \<Longrightarrow> s' = s"
proof (induction ts arbitrary: mult)
  case Nil
  then show ?case by simp
next
  case (Cons t ts)
  obtain i a where t: "t = (i, a)" by (cases t)
  show ?case
  proof (cases "a = 0")
    case True
    then show ?thesis using Cons.prems Cons.IH [of mult] unfolding t by simp
  next
    case False
    then have "readMultipliers_comp cons ts s (set_entry i a mult) = Inr (s', m)"
      using Cons.prems unfolding t by (auto split: if_splits option.splits)
    then show ?thesis using Cons.prems(1) Cons.IH by blast
  qed
qed

text \<open>
  With the sense zero every correction ends the completion: the loops come through only
  when no entry has a gap, and then leave the multipliers and the side as they were.
\<close>

lemma correct_gap_zero: "correct_gap 0 ll lu lb ub idx g acc = Inl Rejected"
  by (simp add: correct_gap_def)

lemma weak_loop1_zero:
  "weak_loop1 (correct_gap 0 ll lu lb ub) row es (c, m, cs)
   = (if list_ex (\<lambda>(idx, v). v \<noteq> row_at row idx) es then Inl Rejected
      else Inr (fold (\<lambda>(idx, v). set_entry idx (row_at row idx)) es c, m, cs))"
  by (induction es arbitrary: c) (auto simp: correct_gap_zero)

lemma weak_loop2_zero:
  "\<exists>c'. weak_loop2 (correct_gap 0 ll lu lb ub) row es (c, m, cs)
        = (if list_ex (\<lambda>(idx, v). row_at c idx \<noteq> row_at row idx) es then Inl Rejected
           else Inr (c', m, cs))"
proof (induction es arbitrary: c)
  case Nil
  then show ?case by simp
next
  case (Cons e es)
  obtain idx v where e: "e = (idx, v)" by (cases e)
  have same: "list_ex (\<lambda>(i, v). row_at (add_entry idx 0 c) i \<noteq> row_at row i) es
              = list_ex (\<lambda>(i, v). row_at c i \<noteq> row_at row i) es"
    by (simp add: row_at_add_entry_zero)
  show ?case
    using Cons.IH [of "add_entry idx 0 c"] unfolding e same
    by (auto simp: correct_gap_zero)
qed

lemma row_at_fold_set:
  "row_at (fold (\<lambda>(i, v). set_entry i (row_at row i)) es c) idx
   = (if idx \<in> fst ` set es then row_at row idx else row_at c idx)"
  by (induction es arbitrary: c) (auto simp: row_at_set_entry)

lemma weak_loops_zero:
  "(case weak_loop1 (correct_gap 0 ll lu lb ub) row coef (coef, m, cs) of
      Inl e \<Rightarrow> Inl e
    | Inr acc1 \<Rightarrow>
        (case weak_loop2 (correct_gap 0 ll lu lb ub) row row acc1 of
           Inl e \<Rightarrow> Inl e
         | Inr (c2, m2, cs2) \<Rightarrow> Inr (f cs2, m2, cs2)))
   = (if needs_correction row coef then Inl Rejected else Inr (f cs, m, cs))"
proof (cases "list_ex (\<lambda>(idx, v). v \<noteq> row_at row idx) coef")
  case True
  then show ?thesis by (simp add: weak_loop1_zero needs_correction_def)
next
  case False
  define c1 where "c1 = fold (\<lambda>(idx, v). set_entry idx (row_at row idx)) coef coef"
  have l1: "weak_loop1 (correct_gap 0 ll lu lb ub) row coef (coef, m, cs) = Inr (c1, m, cs)"
    using False by (simp add: weak_loop1_zero c1_def)
  have all: "\<forall>(i, a) \<in> set coef. a = row_at row i"
    using False by (auto simp: list_ex_iff)
  have same: "row_at c1 idx = row_at coef idx" for idx
    using row_at_entry [OF all, of idx] by (simp add: c1_def row_at_fold_set)
  obtain c' where l2:
    "weak_loop2 (correct_gap 0 ll lu lb ub) row row (c1, m, cs)
     = (if list_ex (\<lambda>(idx, v). row_at c1 idx \<noteq> row_at row idx) row then Inl Rejected
        else Inr (c', m, cs))"
    using weak_loop2_zero [of ll lu lb ub row row c1 m cs] by blast
  show ?thesis
    using False by (simp add: l1 l2 same needs_correction_def)
qed

text \<open>
  C7.  The claim fails on an equality.  The claimed constraint \<open>x0 = 5\<close> with the
  multiplier one on the constraint \<open>x0 = 3\<close> needs no coefficient correction; its weak
  completion succeeds with the corrected side \<open>3\<close>, although the sense is neither \<open>\<le>\<close>
  nor \<open>\<ge>\<close> and the claimed coefficient vector is not empty.
\<close>

theorem weak_equality_completed:
  "completeWeakDomination ccons_example lower_example upper_example [(0, 1)] 0 5 [] [(0, 1)]
     = Inr (True, [(0, 1)], 3)"
  by code_simp

text \<open>
  A claimed equality over a cited inequality: \<open>readMultipliers\<close> replaces the sense zero
  by that of the inequality, and the claimed \<open>2 x0 = 10\<close> is completed from \<open>x0 \<le> 3\<close>
  with a correction by the upper bound.
\<close>

lemma weak_equality_over_inequality:
  "completeWeakDomination ccons_example lower_example upper_example [(0, 2)] 0 10 []
     [(1, 1)] = Inr (True, [(1, 1), (7, 1)], 7)"
  by code_simp

text \<open>
  C7, as amended.  For a claimed sense \<open>\<le>\<close> or \<open>\<ge>\<close>, a weak completion that runs to its
  end succeeds if and only if the corrected side is at most (for \<open>\<le>\<close>) or at least (for
  \<open>\<ge>\<close>) the claimed right-hand side, or the claimed coefficient vector is empty and the
  corrected side is negative (for \<open>\<le>\<close>) or positive (for \<open>\<ge>\<close>).  When the sense after
  reading the multipliers is an equality, the completion fails if a coefficient
  correction is needed, and otherwise succeeds with the multipliers and the side of the
  combination, whatever the claimed right-hand side.
\<close>

theorem weak_completion_outcome:
  "((consense = - 1 \<or> consense = 1)
      \<and> completeWeakDomination cons lb ub row consense claimed bounds ts = Inr (success, m, cs)
      \<longrightarrow> (success \<longleftrightarrow>
             (consense = - 1 \<and> cs \<le> claimed) \<or> (consense = 1 \<and> cs \<ge> claimed)
             \<or> (row = [] \<and> ((consense = - 1 \<and> cs < 0) \<or> (consense = 1 \<and> cs > 0)))))
   \<and> (local_bounds bounds (Map.empty, Map.empty) = Inr lbs
      \<and> readLinComb_comp cons consense ts = Inr (0, r, coef, mult)
      \<longrightarrow> completeWeakDomination cons lb ub row consense claimed bounds ts
           = (if needs_correction row coef then Inl Rejected else Inr (True, mult, r)))"
proof -
  have ineq: "success \<longleftrightarrow>
             (consense = - 1 \<and> cs \<le> claimed) \<or> (consense = 1 \<and> cs \<ge> claimed)
             \<or> (row = [] \<and> ((consense = - 1 \<and> cs < 0) \<or> (consense = 1 \<and> cs > 0)))"
    if s: "consense = - 1 \<or> consense = 1"
      and res: "completeWeakDomination cons lb ub row consense claimed bounds ts
                = Inr (success, m, cs)"
  proof -
    from res obtain s' rhsDer coefDer multDer where
      rl: "readLinComb_comp cons consense ts = Inr (s', rhsDer, coefDer, multDer)"
      and suc: "success = weak_success s' row claimed cs"
      by (auto simp: completeWeakDomination_def split: sum.splits prod.splits)
    from rl obtain ml where "readMultipliers_comp cons ts consense [] = Inr (s', ml)"
      by (auto simp: readLinComb_comp_def split: sum.splits prod.splits)
    then have "s' = consense"
      using s readMultipliers_comp_sense [of consense cons ts "[]" s' ml] by auto
    then show ?thesis
      using s suc by (auto simp: weak_success_def)
  qed
  have eq: "completeWeakDomination cons lb ub row consense claimed bounds ts
            = (if needs_correction row coef then Inl Rejected else Inr (True, mult, r))"
    if lbo: "local_bounds bounds (Map.empty, Map.empty) = Inr lbs"
      and rl: "readLinComb_comp cons consense ts = Inr (0, r, coef, mult)"
  proof -
    obtain ll lu where lbs: "lbs = (ll, lu)" by (cases lbs)
    have ws: "weak_success 0 row claimed x = True" for x
      by (simp add: weak_success_def)
    show ?thesis
      using weak_loops_zero [where ll = ll and lu = lu and lb = lb and ub = ub and row = row
          and coef = coef and m = mult and cs = r and f = "weak_success 0 row claimed"]
      by (simp add: completeWeakDomination_def lbo lbs rl ws)
  qed
  show ?thesis using ineq eq by blast
qed

theorem weak_completion_outcome_witness:
  "completeWeakDomination ccons_example lower_example upper_example [(0, 1), (1, 3)] (- 1) 20
      [(''U'', 1, 9, 4)] [(1, 1)] = Inr (True, [(1, 1), (9, 3)], 15)
   \<and> completeWeakDomination ccons_example lower_example upper_example [(0, 1), (1, 3)] (- 1) 10
      [(''U'', 1, 9, 4)] [(1, 1)] = Inr (False, [(1, 1), (9, 3)], 15)
   \<and> readLinComb_comp ccons_example 0 [(0, 1)] = Inr (0, 3, [(0, 1)], [(0, 1)])
   \<and> needs_correction [(0, 2)] [(0, 1)]
   \<and> completeWeakDomination ccons_example lower_example upper_example [(0, 2)] 0 10 []
      [(0, 1)] = Inl Rejected"
proof -
  have a: "completeWeakDomination ccons_example lower_example upper_example [(0, 1), (1, 3)]
             (- 1) 20 [(''U'', 1, 9, 4)] [(1, 1)] = Inr (True, [(1, 1), (9, 3)], 15)"
    and b: "completeWeakDomination ccons_example lower_example upper_example [(0, 1), (1, 3)]
             (- 1) 10 [(''U'', 1, 9, 4)] [(1, 1)] = Inr (False, [(1, 1), (9, 3)], 15)"
    by code_simp+
  have rl: "readLinComb_comp ccons_example 0 [(0, 1)] = Inr (0, 3, [(0, 1)], [(0, 1)])"
    by code_simp
  have nc: "needs_correction [(0, 2)] [(0, 1)]"
    by code_simp
  have lbn: "local_bounds [] (Map.empty, Map.empty) = Inr (Map.empty, Map.empty)"
    by simp
  have "completeWeakDomination ccons_example lower_example upper_example [(0, 2)] 0 10 []
          [(0, 1)] = Inl Rejected"
    using weak_completion_outcome [where consense = 0 and cons = ccons_example
        and lb = lower_example and ub = upper_example and row = "[(0, 2)]" and claimed = 10
        and bounds = "[]" and ts = "[(0, 1)]" and lbs = "(Map.empty, Map.empty)" and r = 3
        and coef = "[(0, 1)]" and mult = "[(0, 1)]"] lbn rl nc
    by simp
  moreover have "True \<longleftrightarrow> ((- 1 :: int) = - 1 \<and> (15 :: rat) \<le> 20)"
    using weak_completion_outcome [where consense = "- 1" and cons = ccons_example
        and lb = lower_example and ub = upper_example and row = "[(0, 1), (1, 3)]"
        and claimed = 20 and bounds = "[(''U'', 1, 9, 4)]" and ts = "[(1, 1)]"
        and success = True and m = "[(1, 1), (9, 3)]" and cs = 15] a
    by simp
  ultimately show ?thesis using a b rl nc by simp
qed

section \<open>Copying derivations\<close>

lemma get_word_Cons: "get_word (t # ts) = Inr (t, ts)"
  by (simp add: get_word_def)

lemma split_long_whole: "split_long t = Some (num, rest) \<Longrightarrow> num @ rest = t"
  by (cases t) (auto simp: split_long_def Let_def split: if_splits)

lemma get_long_canonical:
  "canonical_long t \<Longrightarrow>
   get_long (t # ts) = Inr (long_of t, ts) \<and> show_long (long_of t) = t"
  by (auto simp: canonical_long_def get_long_def split: option.splits
        dest!: split_long_whole)

lemma get_rational_canonical:
  "canonical_rational t \<Longrightarrow> \<exists>q. get_rational (t # ts) = Inr (q, ts) \<and> show_rational q = t"
  by (auto simp: canonical_rational_def get_rational_def split: option.splits)

lemma copy_pairs_wf:
  "list_all (\<lambda>(i, v). canonical_long i) ps \<Longrightarrow>
   copy_pairs (length ps) (pair_tokens ps @ rest) = Inr (pair_tokens ps, rest)"
proof (induction ps)
  case Nil
  then show ?case by (simp add: pair_tokens_def)
next
  case (Cons p ps)
  obtain i v where p: "p = (i, v)" by (cases p)
  have i: "canonical_long i" and ps: "list_all (\<lambda>(i, v). canonical_long i) ps"
    using Cons.prems p by auto
  have toks: "pair_tokens (p # ps) = i # v # pair_tokens ps"
    by (simp add: pair_tokens_def p)
  show ?case
    using get_long_canonical [OF i] Cons.IH [OF ps]
    by (simp add: toks get_word_Cons)
qed

lemma copy_pairs_rnd_wf:
  "list_all (\<lambda>(i, v). canonical_long i \<and> canonical_rational v) ps \<Longrightarrow>
   copy_pairs_rnd (length ps) (pair_tokens ps @ rest) = Inr (pair_tokens ps, rest)"
proof (induction ps)
  case Nil
  then show ?case by (simp add: pair_tokens_def)
next
  case (Cons p ps)
  obtain i v where p: "p = (i, v)" by (cases p)
  have i: "canonical_long i" and v: "canonical_rational v"
    and ps: "list_all (\<lambda>(i, v). canonical_long i \<and> canonical_rational v) ps"
    using Cons.prems p by auto
  have toks: "pair_tokens (p # ps) = i # v # pair_tokens ps"
    by (simp add: pair_tokens_def p)
  obtain q where q: "get_rational (v # pair_tokens ps @ rest) = Inr (q, pair_tokens ps @ rest)"
      "show_rational q = v"
    using get_rational_canonical [OF v] by blast
  show ?case
    using get_long_canonical [OF i] Cons.IH [OF ps] q
    by (simp add: toks)
qed

lemma copy_pairs_lin_wf:
  "list_all (\<lambda>(i, v). canonical_long i) ps \<Longrightarrow>
   \<exists>out. copy_pairs_lin mk nc (length ps) (pair_tokens ps @ rest) = Inr (out, rest)"
proof (induction ps)
  case Nil
  then show ?case by (simp add: pair_tokens_def)
next
  case (Cons p ps)
  obtain i v where p: "p = (i, v)" by (cases p)
  have i: "canonical_long i" and ps: "list_all (\<lambda>(i, v). canonical_long i) ps"
    using Cons.prems p by auto
  have toks: "pair_tokens (p # ps) = i # v # pair_tokens ps"
    by (simp add: pair_tokens_def p)
  obtain out where "copy_pairs_lin mk nc (length ps) (pair_tokens ps @ rest) = Inr (out, rest)"
    using Cons.IH [OF ps] by blast
  then show ?case
    using get_long_canonical [OF i]
    by (simp add: toks get_word_Cons)
qed

lemma copy_closing_wf:
  "canonical_long r \<Longrightarrow> copy_closing (''}'' # r # rest) = Inr ([''}'', r], rest)"
  using get_long_canonical [of r rest] by (simp add: copy_closing_def get_word_Cons)

text \<open>
  The reason of a well-formed derivation is consumed whole, the return value is \<open>true\<close>,
  and what is written for a reason other than \<open>lin\<close> is the reason and the closing index
  themselves.
\<close>

lemma copy_reason_wf:
  assumes "wf_reason_tokens r" and "canonical_long ref"
  shows "\<exists>out. copy_reason cfg i k (hd (reason_tokens r)) (hd (tl (reason_tokens r)))
                  (tl (tl (reason_tokens r)) @ ref # rest) = Inr (True, out, rest)
               \<and> ((case r of WLin a b c \<Rightarrow> False | _ \<Rightarrow> True) \<longrightarrow>
                    out = reason_tokens r @ [ref])"
proof (cases r)
  case WAsm
  then show ?thesis
    using copy_closing_wf [OF assms(2), of rest]
    by (simp add: reason_tokens_def copy_reason_def)
next
  case (WRnd n ps)
  have n: "canonical_long n" "long_of n = int (length ps)" "\<not> int_max < int (length ps)"
    and ps: "list_all (\<lambda>(i, v). canonical_long i \<and> canonical_rational v) ps"
    using assms(1) WRnd by (simp_all add: wf_reason_tokens_def)
  show ?thesis
    using get_long_canonical [OF n(1)] n(2,3)
      copy_pairs_rnd_wf [OF ps, of "''}'' # ref # rest"] copy_closing_wf [OF assms(2), of rest]
    by (simp add: WRnd reason_tokens_def copy_reason_def)
next
  case (WUns i1 l1 i2 l2)
  have c: "canonical_long i1" "canonical_long l1" "canonical_long i2" "canonical_long l2"
    using assms(1) WUns by (simp_all add: wf_reason_tokens_def)
  show ?thesis
    using get_long_canonical [OF c(1)] get_long_canonical [OF c(2)]
      get_long_canonical [OF c(3)] get_long_canonical [OF c(4)]
      copy_closing_wf [OF assms(2), of rest]
    by (simp add: WUns reason_tokens_def copy_reason_def)
next
  case (WLin n ps closing)
  have n: "canonical_long n" "long_of n = int (length ps)"
    and ps: "list_all (\<lambda>(i, v). canonical_long i) ps"
    using assms(1) WLin by (simp_all add: wf_reason_tokens_def)
  obtain out where out:
    "copy_pairs_lin
       (\<not> (k = ''OBJ'' \<and> \<not> incompleteObj cfg)
        \<and> of_int (draw cfg i) \<le> percentageIncomplete cfg \<and> incomplete cfg)
       (numberOfCons cfg) (length ps) (pair_tokens ps @ closing # ref # rest)
     = Inr (out, closing # ref # rest)"
    using copy_pairs_lin_wf [OF ps] by blast
  show ?thesis
    using get_long_canonical [OF n(1)] n(2) out get_long_canonical [OF assms(2)]
    by (simp add: WLin reason_tokens_def copy_reason_def get_word_Cons)
qed

lemma reason_tokens_shape:
  "reason_tokens r = hd (reason_tokens r) # hd (tl (reason_tokens r)) # tl (tl (reason_tokens r))"
  by (cases r) (simp_all add: reason_tokens_def)

lemma copy_derivation_wf:
  assumes "wf_der d"
  shows "\<exists>out. copy_derivation cfg i (derivation_tokens d @ rest) = Inr (True, out, rest)
               \<and> (\<not> is_lin d \<longrightarrow> out = derivation_tokens d)"
proof -
  define k where "k = (case w_coef d of None \<Rightarrow> ''OBJ'' | Some (k, ps) \<Rightarrow> k)"
  define b where "b = hd (reason_tokens (w_reason d))"
  define kd where "kd = hd (tl (reason_tokens (w_reason d)))"
  define rs where "rs = tl (tl (reason_tokens (w_reason d)))"
  have shape: "reason_tokens (w_reason d) = b # kd # rs"
    unfolding b_def kd_def rs_def by (rule reason_tokens_shape)
  have wr: "wf_reason_tokens (w_reason d)" and ref: "canonical_long (w_ref d)"
    and wc: "wf_coef (w_coef d)"
    using assms by (simp_all add: wf_der_def)
  obtain out where out:
    "copy_reason cfg i k b kd (rs @ w_ref d # rest) = Inr (True, out, rest)"
    and same: "(case w_reason d of WLin a b c \<Rightarrow> False | _ \<Rightarrow> True) \<longrightarrow>
                 out = reason_tokens (w_reason d) @ [w_ref d]"
    using copy_reason_wf [OF wr ref, of cfg i k rest] unfolding b_def kd_def rs_def by blast
  have lin: "is_lin d \<longleftrightarrow> \<not> (case w_reason d of WLin a b c \<Rightarrow> False | _ \<Rightarrow> True)"
    by (simp add: is_lin_def split: wf_reason.splits)
  show ?thesis
  proof (cases "w_coef d")
    case None
    have "copy_derivation cfg i (derivation_tokens d @ rest)
          = Inr (True, [w_label d, w_sense d, w_rhs d, ''OBJ''] @ out, rest)"
      using out None
      by (simp add: copy_derivation_def derivation_tokens_def coef_tokens_def shape
            get_word_Cons k_def)
    moreover have "\<not> is_lin d \<longrightarrow>
                     [w_label d, w_sense d, w_rhs d, ''OBJ''] @ out = derivation_tokens d"
      using same lin None by (simp add: derivation_tokens_def coef_tokens_def)
    ultimately show ?thesis by blast
  next
    case (Some c)
    obtain kt ps where c: "c = (kt, ps)" by (cases c)
    have kt: "kt \<noteq> ''OBJ''" "atoi kt = Some (int (length ps))"
      and ps: "list_all (\<lambda>(i, v). canonical_long i) ps"
      using wc Some c by (simp_all add: wf_coef_def)
    have "copy_derivation cfg i (derivation_tokens d @ rest)
          = Inr (True, [w_label d, w_sense d, w_rhs d, kt] @ pair_tokens ps @ out, rest)"
      using out Some c kt copy_pairs_wf [OF ps, of "b # kd # rs @ w_ref d # rest"]
      by (simp add: copy_derivation_def derivation_tokens_def coef_tokens_def shape
            get_word_Cons k_def)
    moreover have "\<not> is_lin d \<longrightarrow>
                     [w_label d, w_sense d, w_rhs d, kt] @ pair_tokens ps @ out
                     = derivation_tokens d"
      using same lin Some c by (simp add: derivation_tokens_def coef_tokens_def)
    ultimately show ?thesis by blast
  qed
qed

lemma copy_loop_wf:
  assumes "list_all wf_der ds"
  shows "\<exists>outs. copy_loop cfg i (length ds) ret (concat (map derivation_tokens ds) @ rest)
                  = Inr (if ds = [] then ret else True, concat outs)
               \<and> list_all2 (\<lambda>d out. is_lin d \<or> out = derivation_tokens d) ds outs"
  using assms
proof (induction ds arbitrary: i ret)
  case Nil
  then show ?case by simp
next
  case (Cons d ds)
  have d: "wf_der d" and ds: "list_all wf_der ds" using Cons.prems by auto
  obtain out where out:
    "copy_derivation cfg i
       (derivation_tokens d @ concat (map derivation_tokens ds) @ rest)
     = Inr (True, out, concat (map derivation_tokens ds) @ rest)"
    and same: "\<not> is_lin d \<longrightarrow> out = derivation_tokens d"
    using copy_derivation_wf [OF d] by blast
  obtain outs where outs:
    "copy_loop cfg (Suc i) (length ds) True (concat (map derivation_tokens ds) @ rest)
     = Inr (if ds = [] then True else True, concat outs)"
    and all: "list_all2 (\<lambda>d out. is_lin d \<or> out = derivation_tokens d) ds outs"
    using Cons.IH [OF ds, of "Suc i" True] by blast
  have "copy_loop cfg i (length (d # ds)) ret
          (concat (map derivation_tokens (d # ds)) @ rest)
        = Inr (True, concat (out # outs))"
    using out outs by simp
  moreover have "list_all2 (\<lambda>d out. is_lin d \<or> out = derivation_tokens d) (d # ds) (out # outs)"
    using same all by auto
  ultimately show ?case by (intro exI [of _ "out # outs"]) simp
qed

text \<open>
  A step whose reason is \<open>sol\<close>: the pass of the loop that reads it writes the claimed
  constraint, finds no branch for the reason, writes nothing of it and returns \<open>false\<close>;
  the closing bracket and the index stay in the stream.
\<close>

lemma copy_derivation_sol:
  assumes "wf_coef c"
  shows "copy_derivation cfg i ([l, s, r] @ coef_tokens c @ [''{'', ''sol''] @ rest)
         = Inr (False, [l, s, r] @ coef_tokens c, rest)"
proof (cases c)
  case None
  then show ?thesis
    by (simp add: copy_derivation_def coef_tokens_def get_word_Cons copy_reason_def)
next
  case (Some kp)
  obtain kt ps where kp: "kp = (kt, ps)" by (cases kp)
  have kt: "kt \<noteq> ''OBJ''" "atoi kt = Some (int (length ps))"
    and ps: "list_all (\<lambda>(i, v). canonical_long i) ps"
    using assms Some kp by (simp_all add: wf_coef_def)
  show ?thesis
    using kt copy_pairs_wf [OF ps, of "''{'' # ''sol'' # rest"]
    by (simp add: Some kp copy_derivation_def coef_tokens_def get_word_Cons copy_reason_def)
qed

lemma copy_loop_sol_last:
  assumes "list_all wf_der ds" and "wf_coef c"
  shows "\<exists>outs. copy_loop cfg i (Suc (length ds)) ret
                  (concat (map derivation_tokens ds)
                   @ [l, s, r] @ coef_tokens c @ [''{'', ''sol''] @ rest)
                = Inr (False, concat outs @ [l, s, r] @ coef_tokens c)
               \<and> list_all2 (\<lambda>d out. is_lin d \<or> out = derivation_tokens d) ds outs"
  using assms(1)
proof (induction ds arbitrary: i ret)
  case Nil
  show ?case
    using copy_derivation_sol [OF assms(2), of cfg i l s r rest] by simp
next
  case (Cons d ds)
  have d: "wf_der d" and ds: "list_all wf_der ds" using Cons.prems by auto
  let ?rest = "concat (map derivation_tokens ds)
               @ [l, s, r] @ coef_tokens c @ [''{'', ''sol''] @ rest"
  obtain out where out:
    "copy_derivation cfg i (derivation_tokens d @ ?rest) = Inr (True, out, ?rest)"
    and same: "\<not> is_lin d \<longrightarrow> out = derivation_tokens d"
    using copy_derivation_wf [OF d] by blast
  obtain outs where outs:
    "copy_loop cfg (Suc i) (Suc (length ds)) True ?rest
     = Inr (False, concat outs @ [l, s, r] @ coef_tokens c)"
    and all: "list_all2 (\<lambda>d out. is_lin d \<or> out = derivation_tokens d) ds outs"
    using Cons.IH [OF ds, of "Suc i" True] by blast
  have "copy_loop cfg i (Suc (length (d # ds))) ret
          (concat (map derivation_tokens (d # ds))
           @ [l, s, r] @ coef_tokens c @ [''{'', ''sol''] @ rest)
        = Inr (False, concat (out # outs) @ [l, s, r] @ coef_tokens c)"
    using out outs by simp
  moreover have "list_all2 (\<lambda>d out. is_lin d \<or> out = derivation_tokens d) (d # ds) (out # outs)"
    using same all by auto
  ultimately show ?case by (intro exI [of _ "out # outs"]) simp
qed

text \<open>
  C8.  The claim fails on a \<open>sol\<close> step: the incompletifier does not know the reason.  On
  the section \<open>DER 1  c L 6 OBJ { sol } -1\<close> it writes the claimed constraint, writes
  nothing of \<open>{ sol } -1\<close>, and returns \<open>false\<close>.
\<close>

theorem sol_step_not_copied:
  "processDER_inc cfg_example
     [''DER'', ''1'', ''c'', ''L'', ''6'', ''OBJ'', ''{'', ''sol'', ''}'', ''-1'']
   = Inr (False, [''DER'', ''1'', ''c'', ''L'', ''6'', ''OBJ''])"
  by code_simp

text \<open>
  C8, as amended.  On a DER section of well-formed derivations whose reasons are \<open>asm\<close>,
  \<open>rnd\<close>, \<open>uns\<close> and \<open>lin\<close>, their number in the range of \<open>int\<close>, \<open>processDER\<close> of
  the incompletifier returns \<open>true\<close>, and what it writes for each derivation whose reason
  is \<open>asm\<close>, \<open>rnd\<close> or \<open>uns\<close> is that derivation, token by token.  A step whose
  reason is \<open>sol\<close> is not recognised: the pass of the loop that reads it writes its
  claimed constraint and nothing of its reason and returns \<open>false\<close>, and \<open>processDER\<close>
  returns \<open>false\<close> on a section whose last step it is.
\<close>

theorem derivations_copied:
  "(ds \<noteq> [] \<and> list_all wf_der ds \<and> canonical_long n \<and> long_of n = int (length ds)
      \<and> int (length ds) \<le> int_max \<longrightarrow>
      (\<exists>outs. processDER_inc cfg ([''DER'', n] @ concat (map derivation_tokens ds))
                = Inr (True, [''DER'', n] @ concat outs)
             \<and> list_all2 (\<lambda>d out. is_lin d \<or> out = derivation_tokens d) ds outs))
   \<and> (wf_coef c \<longrightarrow>
        copy_derivation cfg i ([l, s, r] @ coef_tokens c @ [''{'', ''sol''] @ rest)
        = Inr (False, [l, s, r] @ coef_tokens c, rest))
   \<and> (list_all wf_der ds \<and> wf_coef c \<and> canonical_long n
        \<and> long_of n = int (length ds) + 1 \<and> int (length ds) + 1 \<le> int_max \<longrightarrow>
        (\<exists>outs. processDER_inc cfg
                  ([''DER'', n] @ concat (map derivation_tokens ds)
                   @ [l, s, r] @ coef_tokens c @ [''{'', ''sol''] @ rest)
                = Inr (False, [''DER'', n] @ concat outs @ [l, s, r] @ coef_tokens c)
             \<and> list_all2 (\<lambda>d out. is_lin d \<or> out = derivation_tokens d) ds outs))"
proof -
  have copied: "\<exists>outs. processDER_inc cfg ([''DER'', n] @ concat (map derivation_tokens ds))
                  = Inr (True, [''DER'', n] @ concat outs)
               \<and> list_all2 (\<lambda>d out. is_lin d \<or> out = derivation_tokens d) ds outs"
    if h: "ds \<noteq> []" "list_all wf_der ds" "canonical_long n" "long_of n = int (length ds)"
      "int (length ds) \<le> int_max"
  proof -
    obtain outs where loop:
      "copy_loop cfg 0 (length ds) False (concat (map derivation_tokens ds) @ [])
       = Inr (if ds = [] then False else True, concat outs)"
      and all: "list_all2 (\<lambda>d out. is_lin d \<or> out = derivation_tokens d) ds outs"
      using copy_loop_wf [OF h(2), of cfg 0 False "[]"] by blast
    have "processDER_inc cfg ([''DER'', n] @ concat (map derivation_tokens ds))
          = Inr (True, [''DER'', n] @ concat outs)"
      using loop h(1,4,5) get_long_canonical [OF h(3), of "concat (map derivation_tokens ds)"]
      by (simp add: processDER_inc_def get_word_Cons)
    with all show ?thesis by blast
  qed
  have last: "\<exists>outs. processDER_inc cfg
                  ([''DER'', n] @ concat (map derivation_tokens ds)
                   @ [l, s, r] @ coef_tokens c @ [''{'', ''sol''] @ rest)
                = Inr (False, [''DER'', n] @ concat outs @ [l, s, r] @ coef_tokens c)
             \<and> list_all2 (\<lambda>d out. is_lin d \<or> out = derivation_tokens d) ds outs"
    if h: "list_all wf_der ds" "wf_coef c" "canonical_long n"
      "long_of n = int (length ds) + 1" "int (length ds) + 1 \<le> int_max"
  proof -
    let ?toks = "concat (map derivation_tokens ds)
                 @ [l, s, r] @ coef_tokens c @ [''{'', ''sol''] @ rest"
    obtain outs where loop:
      "copy_loop cfg 0 (Suc (length ds)) False ?toks
       = Inr (False, concat outs @ [l, s, r] @ coef_tokens c)"
      and all: "list_all2 (\<lambda>d out. is_lin d \<or> out = derivation_tokens d) ds outs"
      using copy_loop_sol_last [OF h(1,2), of cfg 0 False l s r rest] by blast
    have nat: "nat (int (length ds) + 1) = Suc (length ds)" by simp
    have "processDER_inc cfg ([''DER'', n] @ ?toks)
          = Inr (False, [''DER'', n] @ concat outs @ [l, s, r] @ coef_tokens c)"
      using loop h(4,5) get_long_canonical [OF h(3), of ?toks] nat
      by (simp add: processDER_inc_def get_word_Cons)
    with all show ?thesis by blast
  qed
  show ?thesis
    using copied last copy_derivation_sol [of c cfg i l s r rest] by blast
qed

text \<open>
  The theorem at a section of four derivations, one of each kind, and at
  \<open>c L 6 OBJ { sol } -1\<close>, alone and after them.
\<close>

theorem derivations_copied_witness:
  "ders_example \<noteq> [] \<and> list_all wf_der ders_example \<and> canonical_long ''4''
   \<and> long_of ''4'' = int (length ders_example) \<and> int (length ders_example) \<le> int_max
   \<and> (\<exists>outs. processDER_inc cfg_example
                ([''DER'', ''4''] @ concat (map derivation_tokens ders_example))
              = Inr (True, [''DER'', ''4''] @ concat outs)
            \<and> list_all2 (\<lambda>d out. is_lin d \<or> out = derivation_tokens d) ders_example outs)
   \<and> wf_coef None
   \<and> copy_derivation cfg_example 0 [''c'', ''L'', ''6'', ''OBJ'', ''{'', ''sol'', ''}'', ''-1'']
       = Inr (False, [''c'', ''L'', ''6'', ''OBJ''], [''}'', ''-1''])
   \<and> canonical_long ''5'' \<and> long_of ''5'' = int (length ders_example) + 1
   \<and> (\<exists>outs. processDER_inc cfg_example
                ([''DER'', ''5''] @ concat (map derivation_tokens ders_example)
                 @ [''c'', ''L'', ''6'', ''OBJ'', ''{'', ''sol'', ''}'', ''-1''])
              = Inr (False, [''DER'', ''5''] @ concat outs @ [''c'', ''L'', ''6'', ''OBJ''])
            \<and> list_all2 (\<lambda>d out. is_lin d \<or> out = derivation_tokens d) ders_example outs)"
proof -
  have h1: "ders_example \<noteq> []" by (simp add: ders_example_def)
  have h2: "list_all wf_der ders_example" by code_simp
  have h3: "canonical_long ''4''" by code_simp
  have h4: "long_of ''4'' = int (length ders_example)" by code_simp
  have h5: "int (length ders_example) \<le> int_max" by code_simp
  have h6: "wf_coef None" by (simp add: wf_coef_def)
  have h7: "canonical_long ''5''" by code_simp
  have h8: "long_of ''5'' = int (length ders_example) + 1" by code_simp
  have h9: "int (length ders_example) + 1 \<le> int_max" by code_simp
  have t1: "\<exists>outs. processDER_inc cfg_example
                ([''DER'', ''4''] @ concat (map derivation_tokens ders_example))
              = Inr (True, [''DER'', ''4''] @ concat outs)
            \<and> list_all2 (\<lambda>d out. is_lin d \<or> out = derivation_tokens d) ders_example outs"
    using derivations_copied [where ds = ders_example and n = "''4''" and cfg = cfg_example]
      h1 h2 h3 h4 h5 by blast
  have t2: "copy_derivation cfg_example 0
              ([''c'', ''L'', ''6''] @ coef_tokens None @ [''{'', ''sol''] @ [''}'', ''-1''])
            = Inr (False, [''c'', ''L'', ''6''] @ coef_tokens None, [''}'', ''-1''])"
    using derivations_copied [where c = None and cfg = cfg_example and i = 0
        and l = "''c''" and s = "''L''" and r = "''6''" and rest = "[''}'', ''-1'']"] h6
    by blast
  have t3: "\<exists>outs. processDER_inc cfg_example
                ([''DER'', ''5''] @ concat (map derivation_tokens ders_example)
                 @ [''c'', ''L'', ''6''] @ coef_tokens None @ [''{'', ''sol'']
                 @ [''}'', ''-1''])
              = Inr (False, [''DER'', ''5''] @ concat outs
                            @ [''c'', ''L'', ''6''] @ coef_tokens None)
            \<and> list_all2 (\<lambda>d out. is_lin d \<or> out = derivation_tokens d) ders_example outs"
    using derivations_copied [where ds = ders_example and n = "''5''" and cfg = cfg_example
        and c = None and l = "''c''" and s = "''L''" and r = "''6''"
        and rest = "[''}'', ''-1'']"] h2 h6 h7 h8 h9
    by blast
  show ?thesis
    using h1 h2 h3 h4 h5 h6 h7 h8 t1 t2 t3 by (simp add: coef_tokens_def)
qed

text \<open>
  The example section: the \<open>lin\<close> step is made incomplete and keeps the index of the
  derived constraint it cites; the other steps are written as they were read.
\<close>

lemma derivations_example_output:
  "processDER_inc cfg_example ([''DER'', ''4''] @ concat (map derivation_tokens ders_example))
   = Inr (True,
       [''DER'', ''4'',
        ''a1'', ''L'', ''0'', ''1'', ''0'', ''1'', ''{'', ''asm'', ''}'', ''-1'',
        ''d1'', ''L'', ''1'', ''1'', ''0'', ''1'', ''{'', ''lin'', ''incomplete'', ''2'', ''2'',
          ''}'', ''4'',
        ''r1'', ''L'', ''0'', ''OBJ'', ''{'', ''rnd'', ''1'', ''0'', ''1/3'', ''}'', ''5'',
        ''u1'', ''L'', ''0'', ''OBJ'', ''{'', ''uns'', ''3'', ''2'', ''4'', ''2'', ''}'', ''-1''])"
  by code_simp

text \<open>
  A number beyond the range of \<open>long\<close> is not a canonical token: its extraction fails.
\<close>

lemma long_of_beyond: "long_of ''9223372036854775808'' = 9223372036854775808"
  by (simp add: long_of_def nat_of_digits_def)

lemma split_long_beyond:
  "split_long ''9223372036854775808'' = Some (''9223372036854775808'', [])"
  by (simp add: split_long_def is_digit_def)

lemma long_overflow_fails:
  "\<not> canonical_long ''9223372036854775808''
   \<and> get_long (''9223372036854775808'' # ts) = Inl ExtractionFailed"
  by (simp add: canonical_long_def get_long_def long_of_beyond split_long_beyond long_max_def)


section \<open>The best objective value\<close>

text \<open>
  The best objective value: when no solution is given by the token \<open>OBJ\<close> and there is
  at least one solution, \<open>processSOL\<close> leaves in \<open>bestObjectiveValue\<close> the least objective
  value of the solutions of a minimisation, and the greatest of a maximisation.
\<close>

lemma Min_insert_min:
  "finite A \<Longrightarrow> Min (insert (min a b) A) = Min (insert a (insert b A))"
  by (cases "A = {}") (simp_all add: min.assoc)

lemma Max_insert_max:
  "finite A \<Longrightarrow> Max (insert (max a b) A) = Max (insert a (insert b A))"
  by (cases "A = {}") (simp_all add: max.assoc)

lemma processSOL_loop_best:
  assumes "processSOL_loop st (Own b) i sols = Inr st'"
    and "\<forall>(l, spec) \<in> set sols. spec \<noteq> TokOBJ"
    and "i \<noteq> 0"
  shows "bestObjectiveValue st'
         = (if isMin st
            then Min (insert (bestObjectiveValue st) (set (map (solution_value st \<circ> snd) sols)))
            else Max (insert (bestObjectiveValue st) (set (map (solution_value st \<circ> snd) sols))))
         \<and> isMin st' = isMin st"
  using assms
proof (induction sols arbitrary: st b i)
  case Nil
  then show ?case by simp
next
  case (Cons sol sols)
  obtain l spec where sol: "sol = (l, spec)" by (cases sol)
  obtain es where spec: "spec = Entries es"
    using Cons.prems(2) sol by (cases spec) auto
  have rest: "\<forall>(l, spec) \<in> set sols. spec \<noteq> TokOBJ"
    using Cons.prems(2) by simp
  from Cons.prems(1) obtain v where
    fill: "fill_entries (numberOfVariables st) es [] = Inr v"
    unfolding sol spec
    by (auto simp: readConstraintCoefficients_def split: sum.splits)
  define val where "val = scalarProduct (objectiveCoefficients st) (compactify v)"
  define new where "new = (if isMin st then min val (bestObjectiveValue st)
                           else max val (bestObjectiveValue st))"
  define st1 where "st1 = st \<lparr> objectiveCoefficients := objectiveCoefficients st,
                              bestObjectiveValue := new \<rparr>"
  have val: "solution_value st spec = val"
    by (simp add: solution_value_def spec fill val_def)
  have loop: "processSOL_loop st1 (Own (compactify v)) (Suc i) sols = Inr st'"
    using Cons.prems(1,3) unfolding sol spec st1_def new_def val_def
    by (auto simp: readConstraintCoefficients_def fill min_def max_def
          split: sum.splits if_splits)
  have sv: "solution_value st1 = solution_value st"
    by (rule ext) (simp add: solution_value_def st1_def split: coefspec.splits sum.splits)
  have IH: "bestObjectiveValue st'
            = (if isMin st
               then Min (insert new (set (map (solution_value st \<circ> snd) sols)))
               else Max (insert new (set (map (solution_value st \<circ> snd) sols))))
            \<and> isMin st' = isMin st"
    using Cons.IH [OF loop rest] by (simp add: sv) (simp add: st1_def)
  show ?case
  proof (cases "isMin st")
    case True
    then show ?thesis
      using IH Min_insert_min [of "set (map (solution_value st \<circ> snd) sols)" val
          "bestObjectiveValue st"]
      by (simp add: new_def sol val insert_commute)
  next
    case False
    then show ?thesis
      using IH Max_insert_max [of "set (map (solution_value st \<circ> snd) sols)" val
          "bestObjectiveValue st"]
      by (simp add: new_def sol val insert_commute)
  qed
qed

lemma processSOL_best:
  assumes "processSOL st sols = Inr st'" and "sols \<noteq> []"
    and "\<forall>(l, spec) \<in> set sols. spec \<noteq> TokOBJ"
  shows "bestObjectiveValue st'
         = (if isMin st then Min (set (map (solution_value st \<circ> snd) sols))
            else Max (set (map (solution_value st \<circ> snd) sols)))"
proof -
  obtain sol rest where sols: "sols = sol # rest" using assms(2) by (cases sols) auto
  obtain l spec where sol: "sol = (l, spec)" by (cases sol)
  obtain es where spec: "spec = Entries es"
    using assms(3) sols sol by (cases spec) auto
  have restOK: "\<forall>(l, spec) \<in> set rest. spec \<noteq> TokOBJ"
    using assms(3) sols by simp
  define st0 where "st0 = st \<lparr> numberOfSolutions := int (length sols) \<rparr>"
  from assms(1) have l0: "processSOL_loop st0 (Own []) 0 sols = Inr st'"
    by (auto simp: processSOL_def st0_def split: sum.splits if_splits)
  then obtain v where fill: "fill_entries (numberOfVariables st) es [] = Inr v"
    unfolding sols sol spec
    by (auto simp: readConstraintCoefficients_def st0_def split: sum.splits)
  define val where "val = scalarProduct (objectiveCoefficients st) (compactify v)"
  define st1 where "st1 = st0 \<lparr> objectiveCoefficients := objectiveCoefficients st,
                               bestObjectiveValue := val \<rparr>"
  have loop: "processSOL_loop st1 (Own (compactify v)) (Suc 0) rest = Inr st'"
    using l0 unfolding sols sol spec st1_def val_def
    by (auto simp: readConstraintCoefficients_def fill st0_def split: sum.splits)
  have sv: "solution_value st1 = solution_value st"
    by (rule ext) (simp add: solution_value_def st1_def st0_def split: coefspec.splits sum.splits)
  have val: "solution_value st spec = val"
    by (simp add: solution_value_def spec fill val_def)
  have "bestObjectiveValue st'
        = (if isMin st
           then Min (insert val (set (map (solution_value st \<circ> snd) rest)))
           else Max (insert val (set (map (solution_value st \<circ> snd) rest))))"
    using processSOL_loop_best [OF loop restOK] by (simp add: sv) (simp add: st1_def st0_def)
  then show ?thesis by (simp add: sols sol val)
qed


section \<open>Cutoff steps\<close>

lemma objective_integral_iff:
  "objective_integral flags v acc = Inr b \<Longrightarrow>
   b \<longleftrightarrow> acc \<and> (\<forall>(i, a) \<in> set v. isInteger a \<and> isInt_at flags i = Some True)"
  by (induction flags v acc arbitrary: b rule: objective_integral.induct)
     (auto split: if_splits option.splits)

text \<open>
  After \<open>processOBJ\<close> the flag \<open>objectiveIntegral\<close> says that every objective coefficient
  is an integer and belongs to an integer variable.
\<close>

lemma processOBJ_objectiveIntegral:
  "processOBJ st objectiveSense spec = Inr st' \<Longrightarrow>
   objectiveIntegral st' \<longleftrightarrow>
     (\<forall>(i, a) \<in> set (objectiveCoefficients st').
        isInteger a \<and> isInt_at (isInt st') i = Some True)"
  by (auto simp: processOBJ_def dest!: objective_integral_iff
        split: if_splits sum.splits prod.splits)

text \<open>
  What the \<open>sol\<close> case tests, on the fields of the state: a well-bracketed \<open>sol\<close> step
  is accepted if and only if its coefficient field is the token \<open>OBJ\<close>, its sense is
  \<open>L\<close> and its right-hand side is at least \<open>bestObjectiveValue\<close>, less one when
  \<open>objectiveIntegral\<close> is set; the constraint it appends has the empty assumption list.
\<close>

lemma derive_sol_iff:
  assumes "dl_reason d = SOL" and "dl_open d = ''{''" and "dl_closing d = ''}''"
  shows "((\<exists>toDer st'. derive st d = Inr (toDer, st')) \<longleftrightarrow>
            cl_coef d = TokOBJ \<and> cl_sense d = CHR ''L''
            \<and> cl_rhs d \<ge> bestObjectiveValue st - (if objectiveIntegral st then 1 else 0))
         \<and> (\<forall>toDer st'. derive st d = Inr (toDer, st') \<longrightarrow> assumptionList toDer = {})"
proof (cases "cl_coef d")
  case TokOBJ
  show ?thesis
    using assms TokOBJ
    by (auto simp: derive_def derive_reason_def readConstraint_def sense_of_char_def
          readConstraintCoefficients_def new_Constraint_def compactify_ptr_def
          split: if_splits)
next
  case (Entries es)
  show ?thesis
    using assms Entries
    by (auto simp: derive_def derive_reason_def readConstraint_def sense_of_char_def
          readConstraintCoefficients_def new_Constraint_def compactify_ptr_def
          split: if_splits sum.splits)
qed

lemma derive_sol_example:
  "(\<exists>toDer st'. derive st_cutoff step_cutoff = Inr (toDer, st'))
   \<and> \<not> (\<exists>toDer st'. derive st_cutoff (step_cutoff \<lparr> cl_rhs := 5 \<rparr>) = Inr (toDer, st'))
   \<and> \<not> (\<exists>toDer st'. derive st_cutoff (step_cutoff \<lparr> cl_coef := Entries [(0, 1)] \<rparr>)
                      = Inr (toDer, st'))"
proof -
  have h: "dl_reason step_cutoff = SOL" "dl_open step_cutoff = ''{''"
      "dl_closing step_cutoff = ''}''"
    by (simp_all add: step_cutoff_def)
  have h5: "dl_reason (step_cutoff \<lparr> cl_rhs := 5 \<rparr>) = SOL"
      "dl_open (step_cutoff \<lparr> cl_rhs := 5 \<rparr>) = ''{''"
      "dl_closing (step_cutoff \<lparr> cl_rhs := 5 \<rparr>) = ''}''"
    by (simp_all add: step_cutoff_def)
  have he: "dl_reason (step_cutoff \<lparr> cl_coef := Entries [(0, 1)] \<rparr>) = SOL"
      "dl_open (step_cutoff \<lparr> cl_coef := Entries [(0, 1)] \<rparr>) = ''{''"
      "dl_closing (step_cutoff \<lparr> cl_coef := Entries [(0, 1)] \<rparr>) = ''}''"
    by (simp_all add: step_cutoff_def)
  show ?thesis
    using derive_sol_iff [OF h, of st_cutoff] derive_sol_iff [OF h5, of st_cutoff]
      derive_sol_iff [OF he, of st_cutoff]
    by (simp add: step_cutoff_def st_cutoff_def initial_state_def)
qed

text \<open>
  \<open>processSOL\<close> leaves \<open>objectiveIntegral\<close> as \<open>processOBJ\<close> has set it.
\<close>

lemma processSOL_loop_objectiveIntegral:
  "processSOL_loop st p i sols = Inr st' \<Longrightarrow> objectiveIntegral st' = objectiveIntegral st"
proof (induction sols arbitrary: st p i)
  case Nil
  then show ?case by simp
next
  case (Cons sol sols)
  obtain l spec where sol: "sol = (l, spec)" by (cases sol)
  from Cons.prems obtain st1 p1 where
    "processSOL_loop st1 p1 (Suc i) sols = Inr st'"
    and "objectiveIntegral st1 = objectiveIntegral st"
    unfolding sol
    by (auto split: sum.splits option.splits prod.splits)
  then show ?case using Cons.IH by metis
qed

lemma processSOL_objectiveIntegral:
  "processSOL st sols = Inr st' \<Longrightarrow> objectiveIntegral st' = objectiveIntegral st"
  by (auto simp: processSOL_def dest!: processSOL_loop_objectiveIntegral
        split: sum.splits if_splits)

text \<open>
  With at least one solution in the \<open>SOL\<close> section, none of them given by the token
  \<open>OBJ\<close>, the claim holds of the state that \<open>processSOL\<close> hands on: a well-bracketed
  \<open>sol\<close> step is accepted if and only if its coefficient field is the token \<open>OBJ\<close>, its
  sense is \<open>L\<close> and its right-hand side is at least the best objective value of the
  solutions (the least of a minimisation, the greatest of a maximisation), less one when
  the objective is integral.
\<close>

lemma sol_step_after_solutions:
  assumes "processSOL st sols = Inr st'" and "sols \<noteq> []"
    and "\<forall>(l, spec) \<in> set sols. spec \<noteq> TokOBJ"
    and "dl_reason d = SOL" and "dl_open d = ''{''" and "dl_closing d = ''}''"
  shows "(\<exists>toDer st''. derive st' d = Inr (toDer, st'')) \<longleftrightarrow>
           cl_coef d = TokOBJ \<and> cl_sense d = CHR ''L''
           \<and> cl_rhs d \<ge> (if isMin st then Min (set (map (solution_value st \<circ> snd) sols))
                           else Max (set (map (solution_value st \<circ> snd) sols)))
                         - (if objectiveIntegral st then 1 else 0)"
  using derive_sol_iff [OF assms(4-6), of st'] processSOL_best [OF assms(1-3)]
    processSOL_objectiveIntegral [OF assms(1)]
  by simp

text \<open>
  From \<open>OBJ\<close> to \<open>DER\<close>: the objective that \<open>processOBJ\<close> has read has no zero entry,
  and \<open>processCON\<close>, \<open>processRTP\<close> and, when no solution is given by the token \<open>OBJ\<close>,
  \<open>processSOL\<close> leave it as it is.
\<close>

lemma processOBJ_compact:
  "processOBJ st objectiveSense spec = Inr st' \<Longrightarrow>
   compactify (objectiveCoefficients st') = objectiveCoefficients st'
   \<and> isMin st' = (objectiveSense = ''min'') \<and> isInt st' = isInt st
   \<and> numberOfVariables st' = numberOfVariables st"
  by (auto simp: processOBJ_def readConstraintCoefficients_def compactify_idem
        split: if_splits sum.splits prod.splits coefspec.splits)

lemma processCON_loop_same:
  "processCON_loop st ls = Inr st' \<Longrightarrow>
   compactify (objectiveCoefficients st) = objectiveCoefficients st \<Longrightarrow>
   same_objective st st'"
proof (induction ls arbitrary: st)
  case Nil
  then show ?case by (simp add: same_objective_def)
next
  case (Cons l ls)
  from Cons.prems(1) obtain s coef obj dummy where
    rc: "readConstraint (numberOfVariables st) (objectiveCoefficients st) (Own [])
           (cl_sense l) (cl_coef l) = Inr (s, coef, obj, dummy)"
    and loop: "processCON_loop
                 (st \<lparr> objectiveCoefficients := obj,
                       constraint := constraint st @
                         [new_Constraint obj (cl_label l) s (cl_rhs l) coef False {}] \<rparr>) ls
               = Inr st'"
    by (auto split: sum.splits)
  have obj: "obj = objectiveCoefficients st"
    using readConstraint_objective [OF rc] Cons.prems(2) by auto
  have "same_objective
          (st \<lparr> objectiveCoefficients := obj,
                constraint := constraint st @
                  [new_Constraint obj (cl_label l) s (cl_rhs l) coef False {}] \<rparr>) st'"
    using Cons.IH [OF loop] Cons.prems(2) obj by simp
  then show ?case by (simp add: same_objective_def obj)
qed

lemma processRTP_same: "processRTP st rtp = Inr st' \<Longrightarrow> same_objective st st'"
  by (auto simp: processRTP_def same_objective_def Let_def
        split: rtp_spec.splits if_splits bound_token.splits)

lemma processSOL_loop_same:
  assumes "processSOL_loop st (Own b) i sols = Inr st'"
    and "\<forall>(l, spec) \<in> set sols. spec \<noteq> TokOBJ"
  shows "same_objective st st'"
  using assms
proof (induction sols arbitrary: st b i)
  case Nil
  then show ?case by (simp add: same_objective_def)
next
  case (Cons sol sols)
  obtain l spec where sol: "sol = (l, spec)" by (cases sol)
  obtain es where spec: "spec = Entries es"
    using Cons.prems(2) sol by (cases spec) auto
  have rest: "\<forall>(l, spec) \<in> set sols. spec \<noteq> TokOBJ"
    using Cons.prems(2) by simp
  from Cons.prems(1) obtain v best where
    loop: "processSOL_loop (st \<lparr> objectiveCoefficients := objectiveCoefficients st,
                                     bestObjectiveValue := best \<rparr>)
                 (Own (compactify v)) (Suc i) sols = Inr st'"
    unfolding sol spec
    by (auto simp: readConstraintCoefficients_def split: sum.splits)
  from Cons.IH [OF loop rest] show ?case by (simp add: same_objective_def)
qed

lemma processSOL_same:
  assumes "processSOL st sols = Inr st'" and "\<forall>(l, spec) \<in> set sols. spec \<noteq> TokOBJ"
  shows "same_objective st st'"
proof -
  from assms(1) have
    "processSOL_loop (st \<lparr> numberOfSolutions := int (length sols) \<rparr>) (Own []) 0 sols = Inr st'"
    by (auto simp: processSOL_def split: sum.splits if_splits)
  from processSOL_loop_same [OF this assms(2)] show ?thesis by (simp add: same_objective_def)
qed

lemma solution_value_same:
  "same_objective st st' \<Longrightarrow> solution_value st' = solution_value st"
  by (rule ext)
     (simp add: solution_value_def same_objective_def split: coefspec.splits sum.splits)

text \<open>
  With at least one solution in the \<open>SOL\<close> section, none of them given by the token
  \<open>OBJ\<close>, the claim holds of the whole run.  In the state in which \<open>main\<close> calls
  \<open>processDER\<close>, a well-bracketed \<open>sol\<close> step is accepted if and only if its coefficient
  field is the token \<open>OBJ\<close>, its sense is \<open>L\<close> and its right-hand side is at least the
  best objective value of the solutions of the certificate (the least when the
  objective sense is \<open>min\<close>, the greatest otherwise), less one when every objective
  coefficient is an integer and belongs to an integer variable.
\<close>

lemma sol_step_of_certificate:
  assumes "before_DER nd cert = Inr st" and "c_solutions cert \<noteq> []"
    and "\<forall>(l, spec) \<in> set (c_solutions cert). spec \<noteq> TokOBJ"
    and "dl_reason d = SOL" and "dl_open d = ''{''" and "dl_closing d = ''}''"
  shows "(\<exists>toDer st'. derive st d = Inr (toDer, st')) \<longleftrightarrow>
           cl_coef d = TokOBJ \<and> cl_sense d = CHR ''L''
           \<and> cl_rhs d \<ge> (if c_objsense cert = ''min''
                           then Min (set (map (solution_value st \<circ> snd) (c_solutions cert)))
                           else Max (set (map (solution_value st \<circ> snd) (c_solutions cert))))
                         - (if \<forall>(i, a) \<in> set (objectiveCoefficients st).
                                 isInteger a \<and> isInt_at (isInt st) i = Some True
                            then 1 else 0)"
proof -
  from assms(1) obtain s2 s3 s4 s5 where
    obj: "processOBJ s2 (c_objsense cert) (c_obj cert) = Inr s3"
    and con: "processCON s3 (c_constraints cert) = Inr s4"
    and rtp: "processRTP s4 (c_rtp cert) = Inr s5"
    and sol: "processSOL s5 (c_solutions cert) = Inr st"
    by (auto simp: before_DER_def in_section_def split: sum.splits)
  note o = processOBJ_compact [OF obj]
  have "processCON_loop (s3 \<lparr> numberOfConstraints := int (length (c_constraints cert)) \<rparr>)
          (c_constraints cert) = Inr s4"
    using con by (auto simp: processCON_def split: if_splits)
  from processCON_loop_same [OF this] o
  have s34: "same_objective s3 s4" by (simp add: same_objective_def)
  have s45: "same_objective s4 s5" by (rule processRTP_same [OF rtp])
  have s5t: "same_objective s5 st" by (rule processSOL_same [OF sol assms(3)])
  have s3t: "same_objective s3 st"
    using s34 s45 s5t by (simp add: same_objective_def)
  have min: "isMin s5 = (c_objsense cert = ''min'')"
    using o s34 s45 by (simp add: same_objective_def)
  have int: "objectiveIntegral s5 \<longleftrightarrow>
               (\<forall>(i, a) \<in> set (objectiveCoefficients st).
                  isInteger a \<and> isInt_at (isInt st) i = Some True)"
    using processOBJ_objectiveIntegral [OF obj] s34 s45 s3t by (simp add: same_objective_def)
  show ?thesis
    using sol_step_after_solutions [OF sol assms(2-6)]
    unfolding min int solution_value_same [OF s5t, symmetric]
    by simp
qed

text \<open>
  C3.  The claim takes the cut from the best objective value over the solutions of the
  \<open>SOL\<close> section.  A certificate with \<open>SOL 0\<close> has none, yet its step
  \<open>cut L -1 OBJ { sol }\<close> is accepted: \<open>bestObjectiveValue\<close> is still the zero it was
  initialised with, and the objective is integral.  With \<open>x0 \<ge> 1\<close> and the cut
  \<open>x0 \<le> -1\<close> the second step derives \<open>0 \<ge> 1\<close>, and the run certifies that the problem
  \<open>min x0, x0 \<ge> 1\<close> is infeasible.  With the solution \<open>x0 = 1\<close> listed the same step
  is rejected.
\<close>

theorem cutoff_without_solution_accepted:
  "c_solutions cert_cutoff_no_solution = []
   \<and> dl_reason (hd (c_derivations cert_cutoff_no_solution)) = SOL
   \<and> cl_rhs (hd (c_derivations cert_cutoff_no_solution)) = - 1
   \<and> main_vipr True cert_cutoff_no_solution = Inr ()
   \<and> main_vipr True (cert_cutoff_no_solution \<lparr> c_solutions := [(''s'', Entries [(0, 1)])] \<rparr>)
       = Inl (SecDER, Rejected)"
  by code_simp


end
